theory Spec2Isabelle
  imports Complex_Main "HOL-Library.Log_Nat" "HOL-Library.Multiset" "HOL-Library.Monad_Syntax"
begin

section \<open>Spiralis: an animated ASCII spiral galaxy (src/main.cpp)\<close>

text \<open>
  The program keeps a fixed population of orbiting particles and twinkling stars, advances
  them by a fixed time step and rasterises them into a character grid.  The embedding
  follows the source function by function.

  Numbers.  A finite \<^verbatim>\<open>double\<close> denotes a real number.  Where a property turns on the
  value that a double takes at a boundary, the embedding computes what the machine
  computes: the constants \<^verbatim>\<open>PI\<close> and \<^verbatim>\<open>TWO_PI\<close> and the time step are the doubles that their
  initialisers denote, the thresholds of the star pass and of the intensity-to-glyph pass
  are the doubles that their literals denote, and the index of a glyph is the truncation of
  a rounded product.  The accumulation pass takes its addition as a parameter,
  so that it can be run with the exact sum and with the sum rounded to binary64: the order
  of the additions matters for the second only.  Everywhere else \<^verbatim>\<open>+\<close>, \<^verbatim>\<open>*\<close>, \<^verbatim>\<open>/\<close>, \<^verbatim>\<open>sqrt\<close>,
  \<^verbatim>\<open>sin\<close> and \<^verbatim>\<open>cos\<close> are the exact operations on \<^typ>\<open>real\<close>: there the program's values
  differ from the modelled ones by the rounding of each operation.
  An \<^verbatim>\<open>int\<close> is a mathematical integer; the only way the program leaves the 32-bit range
  is a conversion from \<^verbatim>\<open>double\<close>, which is modelled with its range check.
\<close>

subsection \<open>Doubles\<close>

text \<open>
  The value of a decimal literal and the result of an arithmetic operation on doubles are
  the exact value rounded to the nearest double, ties going to the even significand (the
  default rounding of IEEE 754, which C++ implementations use for \<^verbatim>\<open>double\<close>).  A double has
  a significand of 53 bits; the smallest exponent of a normal number is \<open>-1022\<close>, below
  which the spacing stays \<open>2 ^ -1074\<close>.  Overflow to infinity is outside the reals and is
  not modelled: \<open>round_double\<close> is the rounding for magnitudes below \<open>2 ^ 1024\<close>.
\<close>

text \<open>\<open>floor_log2 v\<close> is the integer \<open>e\<close> with \<open>2 ^ e \<le> v < 2 ^ (e + 1)\<close>, for \<open>v > 0\<close>.\<close>

definition floor_log2 :: "real \<Rightarrow> int" where
  "floor_log2 v =
     (if 1 \<le> v then int (floorlog 2 (nat \<lfloor>v\<rfloor>)) - 1
      else - int (floorlog 2 (nat (\<lceil>1 / v\<rceil> - 1))))"

definition round_half_even :: "real \<Rightarrow> int" where
  "round_half_even v =
     (let f = \<lfloor>v\<rfloor>; d = v - of_int f
      in if d < 1 / 2 then f
         else if 1 / 2 < d then f + 1
         else if even f then f else f + 1)"

definition round_double :: "real \<Rightarrow> real" where
  "round_double v =
     (if v = 0 then 0
      else (let e = max (floor_log2 \<bar>v\<bar>) (- 1022) - 52;
                m = round_half_even (\<bar>v\<bar> / 2 powi e)
            in sgn v * of_int m * 2 powi e))"

text \<open>The operators \<^verbatim>\<open>+\<close> and \<^verbatim>\<open>*\<close> on doubles.\<close>

definition double_add :: "real \<Rightarrow> real \<Rightarrow> real" where
  "double_add a b = round_double (a + b)"

definition double_mul :: "real \<Rightarrow> real \<Rightarrow> real" where
  "double_mul a b = round_double (a * b)"

subsection \<open>Constants\<close>

text \<open>
  \<^verbatim>\<open>constexpr double PI = 3.14159265358979323846;\<close>
  \<^verbatim>\<open>constexpr double TWO_PI = 2.0 * PI;\<close>
\<close>

definition PI :: real where
  "PI = round_double 3.14159265358979323846"

definition TWO_PI :: real where
  "TWO_PI = double_mul 2.0 PI"

definition GRADIENT :: string where
  "GRADIENT = '' .:-=+*#%@''"

text \<open>The time step of \<^verbatim>\<open>main\<close>: \<^verbatim>\<open>constexpr double dt = 0.1;\<close>\<close>

definition frame_dt :: real where
  "frame_dt = round_double 0.1"

subsection \<open>Conversions and checked operations\<close>

text \<open>
  \<^verbatim>\<open>static_cast<int>(v)\<close> drops the fractional part (rounds toward zero).  The behaviour
  is undefined when the truncated value is not an \<^verbatim>\<open>int\<close>; that case is \<open>None\<close>.
\<close>

definition static_cast_int :: "real \<Rightarrow> int option" where
  "static_cast_int v =
     (let t = (if v < 0 then \<lceil>v\<rceil> else \<lfloor>v\<rfloor>)
      in if - (2 ^ 31) \<le> t \<and> t < 2 ^ 31 then Some t else None)"

text \<open>
  A division of doubles by zero yields an infinity or a NaN, neither of which is a real
  number.  The checked division makes that event visible as \<open>None\<close>.
\<close>

definition divide_checked :: "real \<Rightarrow> real \<Rightarrow> real option" where
  "divide_checked a b = (if b = 0 then None else Some (a / b))"

text \<open>\<^verbatim>\<open>std::clamp(v, lo, hi)\<close>.\<close>

definition clamp :: "int \<Rightarrow> int \<Rightarrow> int \<Rightarrow> int" where
  "clamp v lo hi = (if v < lo then lo else if hi < v then hi else v)"

subsection \<open>Vec2\<close>

record Vec2 =
  x :: real
  y :: real


definition Vec2_minus :: "Vec2 \<Rightarrow> Vec2 \<Rightarrow> Vec2" where
  "Vec2_minus a b = \<lparr>x = x a - x b, y = y a - y b\<rparr>"

definition Vec2_times :: "Vec2 \<Rightarrow> real \<Rightarrow> Vec2" where
  "Vec2_times a s = \<lparr>x = x a * s, y = y a * s\<rparr>"

definition Vec2_length :: "Vec2 \<Rightarrow> real" where
  "Vec2_length a = sqrt (x a * x a + y a * y a)"

text \<open>
  \<^verbatim>\<open>return len > 0 ? Vec2{x / len, y / len} : Vec2{0, 0};\<close>
  The two divisions are the checked ones, so a division by a zero length would make the
  result \<open>None\<close>.
\<close>

definition normalized :: "Vec2 \<Rightarrow> Vec2 option" where
  "normalized a =
     (let len = Vec2_length a
      in if len > 0
         then (case divide_checked (x a) len of
                 None \<Rightarrow> None
               | Some qx \<Rightarrow>
                   (case divide_checked (y a) len of
                      None \<Rightarrow> None
                    | Some qy \<Rightarrow> Some \<lparr>x = qx, y = qy\<rparr>))
         else Some \<lparr>x = 0, y = 0\<rparr>)"

definition perpendicular :: "Vec2 \<Rightarrow> Vec2" where
  "perpendicular a = \<lparr>x = - y a, y = x a\<rparr>"

subsection \<open>Particle\<close>

record Particle =
  pos :: Vec2
  angle :: real
  radius :: real
  angular_velocity :: real
  brightness :: real

text \<open>
  The constructor \<^verbatim>\<open>Particle(r, a, av, b)\<close>; \<^verbatim>\<open>pos\<close> is default-constructed and never
  used afterwards.
\<close>

definition Particle_new :: "real \<Rightarrow> real \<Rightarrow> real \<Rightarrow> real \<Rightarrow> Particle" where
  "Particle_new r a av b =
     \<lparr>Particle.pos = \<lparr>x = 0, y = 0\<rparr>, angle = a, radius = r,
      angular_velocity = av, brightness = b\<rparr>"

text \<open>
  \<^verbatim>\<open>angle += angular_velocity * dt;\<close>
  \<^verbatim>\<open>if (angle > TWO_PI) angle -= TWO_PI;\<close>
  \<^verbatim>\<open>if (angle < 0) angle += TWO_PI;\<close>
\<close>

definition Particle_update :: "real \<Rightarrow> Particle \<Rightarrow> Particle" where
  "Particle_update dt p =
     (let a1 = angle p + angular_velocity p * dt;
          a2 = (if a1 > TWO_PI then a1 - TWO_PI else a1);
          a3 = (if a2 < 0 then a2 + TWO_PI else a2)
      in p\<lparr>angle := a3\<rparr>)"

definition get_position :: "Particle \<Rightarrow> Vec2 \<Rightarrow> real \<Rightarrow> Vec2" where
  "get_position p c aspect =
     \<lparr>x = x c + radius p * cos (angle p) * aspect,
      y = y c + radius p * sin (angle p)\<rparr>"

subsection \<open>Star\<close>

record Star =
  pos :: Vec2
  phase :: real
  speed :: real
  base_brightness :: real

text \<open>
  \<^verbatim>\<open>phase += speed * dt;\<close>
  \<^verbatim>\<open>if (phase > TWO_PI) phase -= TWO_PI;\<close>
\<close>

definition Star_update :: "real \<Rightarrow> Star \<Rightarrow> Star" where
  "Star_update dt s =
     (let f1 = phase s + speed s * dt;
          f2 = (if f1 > TWO_PI then f1 - TWO_PI else f1)
      in s\<lparr>phase := f2\<rparr>)"

definition get_brightness :: "Star \<Rightarrow> real" where
  "get_brightness s = base_brightness s * (0.3 + 0.7 * (0.5 + 0.5 * sin (phase s)))"

subsection \<open>The random source\<close>

text \<open>
  \<^verbatim>\<open>random_double(min_val, max_val)\<close> draws from the process-wide \<^verbatim>\<open>mt19937 rng(42)\<close>
  through a \<^verbatim>\<open>uniform_real_distribution\<close>.  The algorithm of the distribution is left to
  the C++ implementation, so the sequence of canonical variates it produces is a
  parameter \<open>rng\<close> of the embedding: the \<open>k\<close>-th call returns
  \<open>min_val + (max_val - min_val) * rng k\<close>, and the state of the generator is the number of
  calls made so far.  The standard promises a result in \<open>[min_val, max_val)\<close>, that is
  \<open>0 \<le> rng k < 1\<close>.
\<close>

definition random_double :: "(nat \<Rightarrow> real) \<Rightarrow> real \<Rightarrow> real \<Rightarrow> nat \<Rightarrow> real \<times> nat" where
  "random_double rng min_val max_val k = (min_val + (max_val - min_val) * rng k, Suc k)"

definition valid_draws :: "(nat \<Rightarrow> real) \<Rightarrow> bool" where
  "valid_draws rng \<longleftrightarrow> (\<forall>k. 0 \<le> rng k \<and> rng k < 1)"

subsection \<open>Galaxy: construction\<close>

record Galaxy =
  particles :: "Particle list"
  stars :: "Star list"
  center :: Vec2
  width :: int
  height :: int
  time :: real
  aspect_ratio :: real

definition num_arms :: nat where
  "num_arms = 2"

definition particles_per_arm :: nat where
  "particles_per_arm = 150"

definition core_particles :: nat where
  "core_particles = 60"

definition num_stars :: nat where
  "num_stars = 80"

text \<open>
  The body of the inner loop of \<^verbatim>\<open>init_spiral_arms\<close>, for arm \<open>arm\<close> and index \<open>i\<close>, with the
  generator at call \<open>k\<close>.  It returns the particle and the new state of the generator.
\<close>

definition arm_particle :: "(nat \<Rightarrow> real) \<Rightarrow> nat \<Rightarrow> nat \<Rightarrow> nat \<Rightarrow> Particle \<times> nat" where
  "arm_particle rng arm i k =
     (let arm_offset = real arm * PI;
          t = real i / real particles_per_arm;
          base_radius = 2.0 + t * 14.0;
          spiral_angle = arm_offset + t * 2.5 * PI;
          (u1, k1) = random_double rng (- 1.0) 1.0 k;
          radius_variation = u1 * (0.5 + t * 1.5);
          (angle_variation, k2) = random_double rng (- 0.2) 0.2 k1;
          rad = base_radius + radius_variation;
          ang = spiral_angle + angle_variation;
          av = 0.15 / sqrt rad;
          br = 0.3 + 0.7 * (1.0 - t * 0.6)
      in (Particle_new rad ang av br, k2))"

function init_arm_loop ::
  "(nat \<Rightarrow> real) \<Rightarrow> nat \<Rightarrow> nat \<Rightarrow> Particle list \<times> nat \<Rightarrow> Particle list \<times> nat" where
  "init_arm_loop rng arm i (ps, k) =
     (if i < particles_per_arm
      then (let (p, k') = arm_particle rng arm i k
            in init_arm_loop rng arm (Suc i) (ps @ [p], k'))
      else (ps, k))"
  by pat_completeness auto
termination
  by (relation "measure (\<lambda>(rng, arm, i, st). particles_per_arm - i)") auto

function init_spiral_arms_loop ::
  "(nat \<Rightarrow> real) \<Rightarrow> nat \<Rightarrow> Particle list \<times> nat \<Rightarrow> Particle list \<times> nat" where
  "init_spiral_arms_loop rng arm st =
     (if arm < num_arms
      then init_spiral_arms_loop rng (Suc arm) (init_arm_loop rng arm 0 st)
      else st)"
  by pat_completeness auto
termination
  by (relation "measure (\<lambda>(rng, arm, st). num_arms - arm)") auto

definition init_spiral_arms :: "(nat \<Rightarrow> real) \<Rightarrow> Particle list \<times> nat \<Rightarrow> Particle list \<times> nat" where
  "init_spiral_arms rng st = init_spiral_arms_loop rng 0 st"

text \<open>The body of the loop of \<^verbatim>\<open>init_core\<close>.\<close>

definition core_particle :: "(nat \<Rightarrow> real) \<Rightarrow> nat \<Rightarrow> Particle \<times> nat" where
  "core_particle rng k =
     (let (rad, k1) = random_double rng 0.5 3.0 k;
          (ang, k2) = random_double rng 0 TWO_PI k1;
          av = 0.3 / sqrt (rad + 0.5);
          (u3, k3) = random_double rng 0 0.2 k2;
          br = 0.8 + u3
      in (Particle_new rad ang av br, k3))"

function init_core_loop ::
  "(nat \<Rightarrow> real) \<Rightarrow> nat \<Rightarrow> Particle list \<times> nat \<Rightarrow> Particle list \<times> nat" where
  "init_core_loop rng i (ps, k) =
     (if i < core_particles
      then (let (p, k') = core_particle rng k
            in init_core_loop rng (Suc i) (ps @ [p], k'))
      else (ps, k))"
  by pat_completeness auto
termination
  by (relation "measure (\<lambda>(rng, i, st). core_particles - i)") auto

definition init_core :: "(nat \<Rightarrow> real) \<Rightarrow> Particle list \<times> nat \<Rightarrow> Particle list \<times> nat" where
  "init_core rng st = init_core_loop rng 0 st"

text \<open>
  The body of the loop of \<^verbatim>\<open>init_background_stars\<close>; the braced initialiser of \<^verbatim>\<open>s.pos\<close>
  draws the abscissa first.
\<close>

definition new_star :: "(nat \<Rightarrow> real) \<Rightarrow> int \<Rightarrow> int \<Rightarrow> nat \<Rightarrow> Star \<times> nat" where
  "new_star rng w h k =
     (let (sx, k1) = random_double rng 0 (real_of_int w) k;
          (sy, k2) = random_double rng 0 (real_of_int h) k1;
          (ph, k3) = random_double rng 0 TWO_PI k2;
          (sp, k4) = random_double rng 0.5 2.0 k3;
          (bb, k5) = random_double rng 0.3 1.0 k4
      in (\<lparr>pos = \<lparr>x = sx, y = sy\<rparr>, phase = ph, speed = sp, base_brightness = bb\<rparr>, k5))"

function init_background_stars_loop ::
  "(nat \<Rightarrow> real) \<Rightarrow> int \<Rightarrow> int \<Rightarrow> nat \<Rightarrow> Star list \<times> nat \<Rightarrow> Star list \<times> nat" where
  "init_background_stars_loop rng w h i (ss, k) =
     (if i < num_stars
      then (let (s, k') = new_star rng w h k
            in init_background_stars_loop rng w h (Suc i) (ss @ [s], k'))
      else (ss, k))"
  by pat_completeness auto
termination
  by (relation "measure (\<lambda>(rng, w, h, i, st). num_stars - i)") auto

definition init_background_stars ::
  "(nat \<Rightarrow> real) \<Rightarrow> int \<Rightarrow> int \<Rightarrow> Star list \<times> nat \<Rightarrow> Star list \<times> nat" where
  "init_background_stars rng w h st = init_background_stars_loop rng w h 0 st"

declare init_arm_loop.simps [simp del] init_spiral_arms_loop.simps [simp del]
  init_core_loop.simps [simp del] init_background_stars_loop.simps [simp del]

text \<open>
  The constructor \<^verbatim>\<open>Galaxy(w, h)\<close>.  A negative \<open>w\<close> or \<open>h\<close> breaks the precondition
  \<open>a \<le> b\<close> of the distribution used for the star positions; that case is \<open>None\<close>.
\<close>

definition Galaxy_new :: "(nat \<Rightarrow> real) \<Rightarrow> int \<Rightarrow> int \<Rightarrow> Galaxy option" where
  "Galaxy_new rng w h =
     (if w < 0 \<or> h < 0 then None
      else (let (ps1, k1) = init_spiral_arms rng ([], 0);
                (ps2, k2) = init_core rng (ps1, k1);
                (ss, k3) = init_background_stars rng w h ([], k2)
            in Some \<lparr>particles = ps2, stars = ss,
                     center = \<lparr>x = real_of_int w / 2.0, y = real_of_int h / 2.0\<rparr>,
                     width = w, height = h, time = 0, aspect_ratio = 2.0\<rparr>))"

subsection \<open>Galaxy: update\<close>

definition Galaxy_update :: "real \<Rightarrow> Galaxy \<Rightarrow> Galaxy" where
  "Galaxy_update dt g =
     g\<lparr>time := time g + dt,
       particles := map (Particle_update dt) (particles g),
       stars := map (Star_update dt) (stars g)\<rparr>"

text \<open>The state after \<open>n\<close> frames of \<^verbatim>\<open>main\<close>, each of which calls \<^verbatim>\<open>update(dt)\<close> once.\<close>

definition run_frames :: "nat \<Rightarrow> Galaxy \<Rightarrow> Galaxy" where
  "run_frames n g = (Galaxy_update frame_dt ^^ n) g"

subsection \<open>main\<close>

text \<open>
  \<^verbatim>\<open>get_terminal_size\<close> on platforms other than Windows, and the galaxy that \<^verbatim>\<open>main\<close>
  constructs from it.
\<close>

definition get_terminal_size :: "int \<times> int" where
  "get_terminal_size = (120, 40)"

definition main_galaxy :: "(nat \<Rightarrow> real) \<Rightarrow> Galaxy option" where
  "main_galaxy rng =
     (let (term_width, term_height) = get_terminal_size;
          w = min term_width 120;
          h = min (term_height - 3) 35
      in Galaxy_new rng w h)"

subsection \<open>Galaxy: render\<close>

text \<open>
  The frame buffers are vectors of rows.  Every write of the source is guarded by a test
  of the indices against \<^verbatim>\<open>width_\<close> and \<^verbatim>\<open>height_\<close>, and \<^verbatim>\<open>render\<close> allocates both grids with
  exactly these dimensions.
\<close>

definition set_cell :: "'a list list \<Rightarrow> nat \<Rightarrow> nat \<Rightarrow> 'a \<Rightarrow> 'a list list" where
  "set_cell grid row col v = grid[row := (grid ! row)[col := v]]"

text \<open>
  The body of the loop of \<^verbatim>\<open>render_stars\<close>.  The brightness is compared with the doubles
  that the literals \<^verbatim>\<open>0.7\<close>, \<^verbatim>\<open>0.4\<close> and \<^verbatim>\<open>0.2\<close> denote.
\<close>

definition render_star :: "Galaxy \<Rightarrow> Star \<Rightarrow> string list \<Rightarrow> string list option" where
  "render_star g s screen = do {
     sx \<leftarrow> static_cast_int (x (pos s));
     sy \<leftarrow> static_cast_int (y (pos s));
     if sx \<ge> 0 \<and> sx < width g \<and> sy \<ge> 0 \<and> sy < height g
     then (let b = get_brightness s
           in if b > round_double 0.7 then Some (set_cell screen (nat sy) (nat sx) CHR ''*'')
              else if b > round_double 0.4 then Some (set_cell screen (nat sy) (nat sx) CHR ''+'')
              else if b > round_double 0.2 then Some (set_cell screen (nat sy) (nat sx) CHR ''.'')
              else Some screen)
     else Some screen
   }"

fun render_stars_loop :: "Galaxy \<Rightarrow> Star list \<Rightarrow> string list \<Rightarrow> string list option" where
  "render_stars_loop g [] screen = Some screen"
| "render_stars_loop g (s # ss) screen = do {
     screen' \<leftarrow> render_star g s screen;
     render_stars_loop g ss screen'
   }"

definition render_stars :: "Galaxy \<Rightarrow> string list \<Rightarrow> string list option" where
  "render_stars g screen = render_stars_loop g (stars g) screen"

text \<open>
  The body of the loop of \<^verbatim>\<open>accumulate_particles\<close>.  The addition of
  \<^verbatim>\<open>intensity[py][px] += p.brightness\<close> is the parameter \<open>add\<close>: \<open>double_add\<close> for the
  machine, \<open>(+)\<close> for exact arithmetic.
\<close>

definition accumulate_particle ::
  "(real \<Rightarrow> real \<Rightarrow> real) \<Rightarrow> Galaxy \<Rightarrow> Particle \<Rightarrow> real list list \<Rightarrow> real list list option" where
  "accumulate_particle add g p intensity = do {
     let q = get_position p (center g) (aspect_ratio g);
     px \<leftarrow> static_cast_int (x q);
     py \<leftarrow> static_cast_int (y q);
     if px \<ge> 0 \<and> px < width g \<and> py \<ge> 0 \<and> py < height g
     then Some (set_cell intensity (nat py) (nat px)
                  (add (intensity ! nat py ! nat px) (brightness p)))
     else Some intensity
   }"

fun accumulate_particles_loop ::
  "(real \<Rightarrow> real \<Rightarrow> real) \<Rightarrow> Galaxy \<Rightarrow> Particle list \<Rightarrow> real list list \<Rightarrow> real list list option" where
  "accumulate_particles_loop add g [] intensity = Some intensity"
| "accumulate_particles_loop add g (p # ps) intensity = do {
     intensity' \<leftarrow> accumulate_particle add g p intensity;
     accumulate_particles_loop add g ps intensity'
   }"

definition accumulate_particles ::
  "(real \<Rightarrow> real \<Rightarrow> real) \<Rightarrow> Galaxy \<Rightarrow> real list list \<Rightarrow> real list list option" where
  "accumulate_particles add g intensity = accumulate_particles_loop add g (particles g) intensity"

text \<open>
  The two statements of \<^verbatim>\<open>apply_intensity\<close> that compute the index into the ramp:
  \<^verbatim>\<open>int idx = static_cast<int>(intensity[y][x] * 3.0);\<close>
  \<^verbatim>\<open>idx = clamp(idx, 0, static_cast<int>(GRADIENT.length()) - 1);\<close>
  The product is a product of doubles.
\<close>

definition glyph_index :: "real \<Rightarrow> int option" where
  "glyph_index v = do {
     idx \<leftarrow> static_cast_int (double_mul v 3.0);
     Some (clamp idx 0 (int (length GRADIENT) - 1))
   }"

text \<open>
  The body of the inner loop of \<^verbatim>\<open>apply_intensity\<close>.  The test
  \<^verbatim>\<open>intensity[y][x] > 0.1\<close> compares with the double that the literal \<^verbatim>\<open>0.1\<close> denotes.
\<close>

definition apply_cell :: "real list list \<Rightarrow> nat \<Rightarrow> nat \<Rightarrow> string list \<Rightarrow> string list option" where
  "apply_cell intensity row col screen =
     (if intensity ! row ! col > round_double 0.1
      then do {
        idx \<leftarrow> glyph_index (intensity ! row ! col);
        Some (set_cell screen row col (GRADIENT ! nat idx))
      }
      else Some screen)"

function apply_intensity_cols ::
  "Galaxy \<Rightarrow> real list list \<Rightarrow> nat \<Rightarrow> nat \<Rightarrow> string list \<Rightarrow> string list option" where
  "apply_intensity_cols g intensity row col screen =
     (if int col < width g
      then do {
        screen' \<leftarrow> apply_cell intensity row col screen;
        apply_intensity_cols g intensity row (Suc col) screen'
      }
      else Some screen)"
  by pat_completeness auto
termination
  by (relation "measure (\<lambda>(g, intensity, row, col, screen). nat (width g) - col)") auto

function apply_intensity_rows ::
  "Galaxy \<Rightarrow> real list list \<Rightarrow> nat \<Rightarrow> string list \<Rightarrow> string list option" where
  "apply_intensity_rows g intensity row screen =
     (if int row < height g
      then do {
        screen' \<leftarrow> apply_intensity_cols g intensity row 0 screen;
        apply_intensity_rows g intensity (Suc row) screen'
      }
      else Some screen)"
  by pat_completeness auto
termination
  by (relation "measure (\<lambda>(g, intensity, row, screen). nat (height g) - row)") auto

declare apply_intensity_cols.simps [simp del] apply_intensity_rows.simps [simp del]

definition apply_intensity :: "Galaxy \<Rightarrow> string list \<Rightarrow> real list list \<Rightarrow> string list option" where
  "apply_intensity g screen intensity = apply_intensity_rows g intensity 0 screen"

definition render_core :: "Galaxy \<Rightarrow> string list \<Rightarrow> string list option" where
  "render_core g screen = do {
     cx \<leftarrow> static_cast_int (x (center g));
     cy \<leftarrow> static_cast_int (y (center g));
     if cx > 0 \<and> cx < width g - 1 \<and> cy \<ge> 0 \<and> cy < height g
     then Some (set_cell
                 (set_cell
                   (set_cell screen (nat cy) (nat cx) CHR ''@'')
                   (nat cy) (nat (cx - 1)) CHR ''('')
                 (nat cy) (nat (cx + 1)) CHR '')'')
     else Some screen
   }"

text \<open>The decimal digits that \<^verbatim>\<open>operator<<\<close> writes for an \<^verbatim>\<open>int\<close>.\<close>

function show_nat :: "nat \<Rightarrow> string" where
  "show_nat n =
     (if n < 10 then [''0123456789'' ! n]
      else show_nat (n div 10) @ [''0123456789'' ! (n mod 10)])"
  by pat_completeness auto
termination
  by (relation "measure id") auto

declare show_nat.simps [simp del]

definition show_int :: "int \<Rightarrow> string" where
  "show_int i = (if i < 0 then CHR ''-'' # show_nat (nat (- i)) else show_nat (nat i))"

text \<open>
  \<^verbatim>\<open>Galaxy::output\<close>; the result is the text of the string buffer, the serialized frame.
  (The source then writes it to the terminal, after the cursor-home sequence of the
  terminal layer.)
\<close>

definition Galaxy_output :: "string list \<Rightarrow> real \<Rightarrow> string option" where
  "Galaxy_output screen real_elapsed_sec = do {
     secs \<leftarrow> static_cast_int real_elapsed_sec;
     Some (concat (map (\<lambda>line. line @ ''\<newline>'') screen) @
           ''\<newline> Time: '' @ show_int secs @ ''s'')
   }"

text \<open>
  \<^verbatim>\<open>render\<close>.  A negative \<^verbatim>\<open>width_\<close> or \<^verbatim>\<open>height_\<close> makes the allocation of the buffers
  throw \<^verbatim>\<open>std::length_error\<close>; that case is \<open>None\<close>, like an undefined conversion.
\<close>

definition render :: "(real \<Rightarrow> real \<Rightarrow> real) \<Rightarrow> Galaxy \<Rightarrow> real \<Rightarrow> string option" where
  "render add g real_elapsed_sec =
     (if width g < 0 \<or> height g < 0 then None
      else do {
        let screen = replicate (nat (height g)) (replicate (nat (width g)) CHR '' '');
        let intensity = replicate (nat (height g)) (replicate (nat (width g)) 0);
        screen1 \<leftarrow> render_stars g screen;
        intensity1 \<leftarrow> accumulate_particles add g intensity;
        screen2 \<leftarrow> apply_intensity g screen1 intensity1;
        screen3 \<leftarrow> render_core g screen2;
        Galaxy_output screen3 real_elapsed_sec
      })"

text \<open>
  The loop of \<^verbatim>\<open>main\<close> never ends: its iteration number \<open>n\<close> (from 0) renders the galaxy
  after \<open>n\<close> updates, with the elapsed time read from the clock, and then updates it.
\<close>

definition main_frame ::
  "(real \<Rightarrow> real \<Rightarrow> real) \<Rightarrow> (nat \<Rightarrow> real) \<Rightarrow> nat \<Rightarrow> real \<Rightarrow> string option" where
  "main_frame add rng n real_elapsed = do {
     g \<leftarrow> main_galaxy rng;
     render add (run_frames n g) real_elapsed
   }"

section \<open>Concrete inputs\<close>

text \<open>
  Draw sequences and small galaxies on which the properties below are evaluated.
  \<open>mid_draws\<close> puts every draw at the middle of its range.
\<close>

definition mid_draws :: "nat \<Rightarrow> real" where
  "mid_draws k = 1 / 2"

text \<open>A \<open>10 \<times> 6\<close> grid with no particles and no stars.\<close>

definition empty_galaxy :: Galaxy where
  "empty_galaxy =
     \<lparr>particles = [], stars = [], center = \<lparr>x = 5, y = 3\<rparr>,
      width = 10, height = 6, time = 0, aspect_ratio = 2\<rparr>"

text \<open>
  The same grid with one particle of brightness \<open>1.0\<close> at radius \<open>1\<close> and angle \<open>0\<close>, which
  projects to column \<open>7\<close> of row \<open>3\<close>.
\<close>

definition lone_particle_galaxy :: Galaxy where
  "lone_particle_galaxy =
     \<lparr>particles = [Particle_new 1 0 0.15 1.0], stars = [],
      center = \<lparr>x = 5, y = 3\<rparr>, width = 10, height = 6, time = 0, aspect_ratio = 2\<rparr>"

text \<open>A grid of one cell that holds a star of brightness \<open>0.65\<close> and a particle of brightness \<open>0.2\<close>.\<close>

definition faint_galaxy :: Galaxy where
  "faint_galaxy =
     \<lparr>particles = [Particle_new 0 0 0.3 0.2],
      stars = [\<lparr>pos = \<lparr>x = 1 / 2, y = 1 / 2\<rparr>, phase = 0, speed = 1, base_brightness = 1\<rparr>],
      center = \<lparr>x = 1 / 2, y = 1 / 2\<rparr>, width = 1, height = 1, time = 0, aspect_ratio = 2\<rparr>"

text \<open>A grid 2 wide and 1 high, and an empty grid of one cell.\<close>

definition narrow_galaxy :: Galaxy where
  "narrow_galaxy =
     \<lparr>particles = [], stars = [], center = \<lparr>x = 1, y = 1 / 2\<rparr>,
      width = 2, height = 1, time = 0, aspect_ratio = 2\<rparr>"

definition one_cell_galaxy :: Galaxy where
  "one_cell_galaxy =
     \<lparr>particles = [], stars = [], center = \<lparr>x = 1 / 2, y = 1 / 2\<rparr>,
      width = 1, height = 1, time = 0, aspect_ratio = 2\<rparr>"

text \<open>A particle at rest on the centre, with brightness \<open>b\<close>.\<close>

definition central_particle :: "real \<Rightarrow> Particle" where
  "central_particle b = Particle_new 0 0 0.3 b"

section \<open>Auxiliary notions\<close>

text \<open>
  The particles and stars that the loops of the constructor append, in closed form: the
  loop for arm \<open>arm\<close> entered at index \<open>i\<close> with the generator at call \<open>k\<close>, and likewise for
  the core and the stars.
\<close>

definition arm_list :: "(nat \<Rightarrow> real) \<Rightarrow> nat \<Rightarrow> nat \<Rightarrow> nat \<Rightarrow> Particle list" where
  "arm_list rng arm i k =
     map (\<lambda>j. fst (arm_particle rng arm j (k + 2 * (j - i)))) [i..<particles_per_arm]"

definition core_list :: "(nat \<Rightarrow> real) \<Rightarrow> nat \<Rightarrow> nat \<Rightarrow> Particle list" where
  "core_list rng i k = map (\<lambda>j. fst (core_particle rng (k + 3 * (j - i)))) [i..<core_particles]"

definition star_list :: "(nat \<Rightarrow> real) \<Rightarrow> int \<Rightarrow> int \<Rightarrow> nat \<Rightarrow> nat \<Rightarrow> Star list" where
  "star_list rng w h i k = map (\<lambda>j. fst (new_star rng w h (k + 5 * (j - i)))) [i..<num_stars]"

text \<open>
  The bounds that hold for a particle from its creation on, and for a star: they make one
  wrap step of \<open>update\<close> sufficient.
\<close>

definition launched :: "Particle \<Rightarrow> bool" where
  "launched p \<longleftrightarrow> - (1 / 5) \<le> angle p \<and> angle p \<le> 7 / 2 * PI + 1 / 5 \<and>
     0 \<le> angular_velocity p \<and> angular_velocity p \<le> 3 / 10"

definition twinkling :: "Star \<Rightarrow> bool" where
  "twinkling s \<longleftrightarrow> 0 \<le> phase s \<and> phase s \<le> TWO_PI \<and> 0 \<le> speed s \<and> speed s \<le> 2"

text \<open>A grid of \<open>h\<close> rows of \<open>w\<close> cells, and such a grid with no cell above \<open>b\<close>.\<close>

definition well_sized :: "nat \<Rightarrow> nat \<Rightarrow> 'a list list \<Rightarrow> bool" where
  "well_sized h w grid \<longleftrightarrow> length grid = h \<and> (\<forall>r<h. length (grid ! r) = w)"

definition bounded_grid :: "nat \<Rightarrow> nat \<Rightarrow> real \<Rightarrow> real list list \<Rightarrow> bool" where
  "bounded_grid h w b I \<longleftrightarrow> well_sized h w I \<and> (\<forall>r<h. \<forall>c<w. I ! r ! c \<le> b)"

text \<open>
  What the constructor establishes and \<open>update\<close> keeps: the geometry of the grid, and the
  bounds on the particles and stars that the render passes rely on.
\<close>

definition staged :: "int \<Rightarrow> int \<Rightarrow> Galaxy \<Rightarrow> bool" where
  "staged w h g \<longleftrightarrow>
     width g = w \<and> height g = h \<and> 0 \<le> w \<and> 0 \<le> h \<and>
     center g = \<lparr>x = real_of_int w / 2, y = real_of_int h / 2\<rparr> \<and> aspect_ratio g = 2 \<and>
     length (particles g) = 360 \<and>
     (\<forall>p\<in>set (particles g). 0 \<le> radius p \<and> radius p \<le> 18 \<and> brightness p \<le> 1) \<and>
     (\<forall>s\<in>set (stars g). 0 \<le> x (pos s) \<and> x (pos s) \<le> real_of_int w \<and>
                          0 \<le> y (pos s) \<and> y (pos s) \<le> real_of_int h)"

section \<open>Properties\<close>

subsection \<open>Doubles\<close>

text \<open>\<open>floor_log2\<close> is the exponent of the binade of a positive number.\<close>

lemma floor_log2_bounds:
  assumes "0 < v"
  shows "2 powi (floor_log2 v) \<le> v" and "v < 2 powi (floor_log2 v + 1)"
proof -
  have "2 powi (floor_log2 v) \<le> v \<and> v < 2 powi (floor_log2 v + 1)"
  proof (cases "1 \<le> v")
    case True
    define n where "n = nat \<lfloor>v\<rfloor>"
    define k where "k = floorlog 2 n"
    have "0 < n" using True by (simp add: n_def)
    moreover have "real n = of_int \<lfloor>v\<rfloor>" using True by (simp add: n_def)
    then have "real n \<le> v" "v < real n + 1" by linarith+
    ultimately have n: "0 < n" "real n \<le> v" "v < real n + 1" by simp_all
    from floorlog_bounds [of n 2] n(1) have b: "2 ^ (k - 1) \<le> n" "n < 2 ^ k"
      by (simp_all add: k_def)
    have k: "0 < k" using n(1) by (simp add: k_def floorlog_def)
    have e: "floor_log2 v = int k - 1"
      using True by (simp add: floor_log2_def n_def k_def)
    have "int k - 1 = int (k - 1)" using k by simp
    then have p1: "(2::real) powi (int k - 1) = 2 ^ (k - 1)"
      by (simp only: power_int_of_nat)
    have lo: "(2::real) ^ (k - 1) \<le> real n"
      using b(1) by (metis of_nat_le_iff of_nat_numeral of_nat_power)
    have hi: "real n + 1 \<le> 2 ^ k"
    proof -
      have "n + 1 \<le> 2 ^ k" using b(2) by simp
      then have "real (n + 1) \<le> real (2 ^ k)" by (simp only: of_nat_le_iff)
      then show ?thesis by simp
    qed
    have p2: "(2::real) powi (int k - 1 + 1) = 2 ^ k"
      by simp
    have "2 powi (int k - 1) \<le> v" "v < 2 powi (int k - 1 + 1)"
      unfolding p1 p2 using lo hi n(2,3) by linarith+
    then show ?thesis
      by (simp only: e simp_thms)
  next
    case False
    define N where "N = \<lceil>1 / v\<rceil>"
    define m where "m = nat (N - 1)"
    define k where "k = floorlog 2 m"
    have iv: "1 < 1 / v" using assms False by simp
    have N: "1 / v \<le> of_int N" "of_int N - 1 < 1 / v"
      unfolding N_def by linarith+
    have "1 < N" using iv N(1) by linarith
    then have m: "0 < m" "real m = of_int N - 1"
      by (simp_all add: m_def)
    from floorlog_bounds [of m 2] m(1) have b: "2 ^ (k - 1) \<le> m" "m < 2 ^ k"
      by (simp_all add: k_def)
    have k: "0 < k" using m(1) by (simp add: k_def floorlog_def)
    have e: "floor_log2 v = - int k"
      using False by (simp add: floor_log2_def N_def m_def k_def)
    have lo: "(2::real) ^ (k - 1) \<le> real m"
      using b(1) by (metis of_nat_le_iff of_nat_numeral of_nat_power)
    have hi: "real m + 1 \<le> 2 ^ k"
    proof -
      have "m + 1 \<le> 2 ^ k" using b(2) by simp
      then have "real (m + 1) \<le> real (2 ^ k)" by (simp only: of_nat_le_iff)
      then show ?thesis by simp
    qed
    have 1: "1 / v \<le> 2 ^ k" using N(1) m(2) hi by linarith
    have 2: "2 ^ (k - 1) < 1 / v" using N(2) m(2) lo by linarith
    have 3: "1 / 2 ^ k \<le> v"
      using 1 assms by (simp add: field_simps)
    have 4: "v < 1 / 2 ^ (k - 1)"
      using 2 assms by (simp add: field_simps)
    have p1: "(2::real) powi (- int k) = 1 / 2 ^ k"
      by (simp add: power_int_minus field_simps)
    have "- int k + 1 = - int (k - 1)" using k by simp
    then have p2: "(2::real) powi (- int k + 1) = 1 / 2 ^ (k - 1)"
      by (simp only: power_int_minus power_int_of_nat) (simp add: field_simps)
    have "2 powi (- int k) \<le> v" "v < 2 powi (- int k + 1)"
      unfolding p1 p2 using 3 4 by simp_all
    then show ?thesis
      by (simp only: e simp_thms)
  qed
  then show "2 powi (floor_log2 v) \<le> v" and "v < 2 powi (floor_log2 v + 1)"
    by simp_all
qed

lemma round_half_even_near: "\<bar>of_int (round_half_even v) - v\<bar> \<le> 1 / 2"
proof -
  have "of_int \<lfloor>v\<rfloor> \<le> v" "v < of_int \<lfloor>v\<rfloor> + 1"
    by linarith+
  then show ?thesis
    by (auto simp: round_half_even_def Let_def abs_le_iff)
qed

text \<open>
  \<open>round_double\<close> moves a number by at most half the spacing of the doubles around it, and
  its value is a multiple of that spacing with a significand of at most \<open>2 ^ 53\<close>.
\<close>

lemma round_double_near:
  assumes "v \<noteq> 0"
  defines "e \<equiv> max (floor_log2 \<bar>v\<bar>) (- 1022) - 52"
  shows "\<bar>round_double v - v\<bar> \<le> 2 powi e / 2"
    and "round_double v = sgn v * of_int (round_half_even (\<bar>v\<bar> / 2 powi e)) * 2 powi e"
    and "round_half_even (\<bar>v\<bar> / 2 powi e) \<le> 2 ^ 53"
proof -
  let ?m = "round_half_even (\<bar>v\<bar> / 2 powi e)"
  have p: "(0::real) < 2 powi e" by simp
  show r: "round_double v = sgn v * of_int ?m * 2 powi e"
    using assms(1) by (simp add: round_double_def e_def Let_def)
  have "\<bar>of_int ?m - \<bar>v\<bar> / 2 powi e\<bar> \<le> 1 / 2"
    by (rule round_half_even_near)
  then have "\<bar>of_int ?m - \<bar>v\<bar> / 2 powi e\<bar> * 2 powi e \<le> 1 / 2 * 2 powi e"
    using p by (intro mult_right_mono) simp_all
  moreover have "\<bar>of_int ?m - \<bar>v\<bar> / 2 powi e\<bar> * 2 powi e = \<bar>of_int ?m * 2 powi e - \<bar>v\<bar>\<bar>"
  proof -
    have "\<bar>of_int ?m - \<bar>v\<bar> / 2 powi e\<bar> * 2 powi e = \<bar>(of_int ?m - \<bar>v\<bar> / 2 powi e) * 2 powi e\<bar>"
      using p by (simp add: abs_mult)
    also have "(of_int ?m - \<bar>v\<bar> / 2 powi e) * 2 powi e = of_int ?m * 2 powi e - \<bar>v\<bar>"
      using p by (simp add: field_simps)
    finally show ?thesis .
  qed
  moreover have "\<bar>round_double v - v\<bar> = \<bar>of_int ?m * 2 powi e - \<bar>v\<bar>\<bar>"
  proof (cases "0 < v")
    case True
    then show ?thesis by (simp add: r)
  next
    case False
    with assms(1) have "v < 0" by simp
    then have "round_double v - v = - (of_int ?m * 2 powi e - \<bar>v\<bar>)"
      by (simp add: r)
    then show ?thesis by (simp only: abs_minus)
  qed
  ultimately show "\<bar>round_double v - v\<bar> \<le> 2 powi e / 2"
    by simp
  have "floor_log2 \<bar>v\<bar> - 52 \<le> e"
    by (simp add: e_def)
  have "\<bar>v\<bar> < 2 powi (floor_log2 \<bar>v\<bar> + 1)"
    using assms(1) by (intro floor_log2_bounds) simp
  also have "\<dots> \<le> 2 powi (e + 53)"
    by (intro power_int_increasing) (simp_all add: e_def)
  also have "\<dots> = 2 powi e * 2 ^ 53"
    by (simp add: power_int_add)
  finally have "\<bar>v\<bar> / 2 powi e < 2 ^ 53"
    using p by (simp add: field_simps)
  then have "\<lfloor>\<bar>v\<bar> / 2 powi e\<rfloor> < 2 ^ 53"
    by (simp add: floor_less_iff)
  then show "?m \<le> 2 ^ 53"
    by (auto simp: round_half_even_def Let_def)
qed

text \<open>The equations that evaluate \<open>round_double\<close> on a rational number.\<close>

lemmas round_double_eval =
  round_double_def floor_log2_def round_half_even_def compute_floorlog power_int_minus Let_def
  double_add_def double_mul_def divide_simps

text \<open>Rounding is monotone, and keeps the sign.\<close>

lemma round_half_even_mono:
  assumes "a \<le> b"
  shows "round_half_even a \<le> round_half_even b"
proof (cases "\<lfloor>a\<rfloor> = \<lfloor>b\<rfloor>")
  case True
  then show ?thesis
    using assms by (auto simp: round_half_even_def Let_def)
next
  case False
  then have "\<lfloor>a\<rfloor> + 1 \<le> \<lfloor>b\<rfloor>"
    using floor_mono [OF assms] by linarith
  moreover have "round_half_even a \<le> \<lfloor>a\<rfloor> + 1"
    by (auto simp: round_half_even_def Let_def)
  moreover have "\<lfloor>b\<rfloor> \<le> round_half_even b"
    by (auto simp: round_half_even_def Let_def)
  ultimately show ?thesis
    by linarith
qed

lemma round_half_even_of_int: "round_half_even (of_int n) = n"
  by (simp add: round_half_even_def)

lemma round_half_even_numeral: "round_half_even (2 ^ n) = 2 ^ n"
  using round_half_even_of_int [of "2 ^ n"] by simp

lemma floor_log2_mono:
  assumes "0 < a" and "a \<le> b"
  shows "floor_log2 a \<le> floor_log2 b"
proof (rule ccontr)
  assume "\<not> floor_log2 a \<le> floor_log2 b"
  then have "floor_log2 b + 1 \<le> floor_log2 a"
    by simp
  then have "(2::real) powi (floor_log2 b + 1) \<le> 2 powi (floor_log2 a)"
    by (intro power_int_increasing) simp_all
  moreover have "b < 2 powi (floor_log2 b + 1)"
    using assms by (intro floor_log2_bounds) simp
  moreover have "2 powi (floor_log2 a) \<le> a"
    using assms by (intro floor_log2_bounds) simp
  ultimately show False
    using assms(2) by linarith
qed

lemma round_double_mono:
  assumes "0 < a" and "a \<le> b"
  shows "round_double a \<le> round_double b"
proof -
  define ea where "ea = max (floor_log2 a) (- 1022) - 52"
  define eb where "eb = max (floor_log2 b) (- 1022) - 52"
  have b: "0 < b" using assms by simp
  have le: "ea \<le> eb"
    using floor_log2_mono [OF assms] by (simp add: ea_def eb_def)
  have ra: "round_double a = of_int (round_half_even (a / 2 powi ea)) * 2 powi ea"
    using assms(1) by (simp add: round_double_def ea_def Let_def)
  have rb: "round_double b = of_int (round_half_even (b / 2 powi eb)) * 2 powi eb"
    using b by (simp add: round_double_def eb_def Let_def)
  show ?thesis
  proof (cases "ea = eb")
    case True
    have "a / 2 powi eb \<le> b / 2 powi eb"
      using assms(2) by (simp add: divide_right_mono)
    then have "round_half_even (a / 2 powi eb) \<le> round_half_even (b / 2 powi eb)"
      by (rule round_half_even_mono)
    then have "(of_int (round_half_even (a / 2 powi eb)) :: real) \<le> of_int (round_half_even (b / 2 powi eb))"
      by simp
    then show ?thesis
      unfolding ra rb True by (intro mult_right_mono) simp_all
  next
    case False
    with le have lt: "ea + 1 \<le> eb" by simp
    then have fb: "floor_log2 b = eb + 52"
      by (auto simp: ea_def eb_def max_def split: if_splits)
    have "round_half_even (a / 2 powi ea) \<le> 2 ^ 53"
      using round_double_near(3) [of a] assms(1) by (simp add: ea_def)
    then have "(of_int (round_half_even (a / 2 powi ea)) :: real) \<le> of_int (2 ^ 53)"
      by (simp only: of_int_le_iff)
    then have "(of_int (round_half_even (a / 2 powi ea)) :: real) \<le> 2 ^ 53"
      by simp
    then have "round_double a \<le> 2 ^ 53 * 2 powi ea"
      unfolding ra by (intro mult_right_mono) simp_all
    also have "\<dots> = 2 powi (ea + 53)"
      by (simp add: power_int_add)
    also have "\<dots> \<le> 2 powi (eb + 52)"
      using lt by (intro power_int_increasing) simp_all
    finally have 1: "round_double a \<le> 2 powi (eb + 52)" .
    have "2 powi (eb + 52) \<le> b"
      using floor_log2_bounds(1) [OF b] by (simp add: fb)
    then have "2 powi (eb + 52) / 2 powi eb \<le> b / 2 powi eb"
      by (simp add: divide_right_mono)
    moreover have "(2::real) powi (eb + 52) / 2 powi eb = 2 ^ 52"
      by (simp add: power_int_add)
    ultimately have "(2::real) ^ 52 \<le> b / 2 powi eb"
      by simp
    then have "round_half_even (2 ^ 52) \<le> round_half_even (b / 2 powi eb)"
      by (rule round_half_even_mono)
    then have "(2::int) ^ 52 \<le> round_half_even (b / 2 powi eb)"
      by (simp only: round_half_even_numeral)
    then have "(of_int (2 ^ 52) :: real) \<le> of_int (round_half_even (b / 2 powi eb))"
      by (simp only: of_int_le_iff)
    then have "(2::real) ^ 52 \<le> of_int (round_half_even (b / 2 powi eb))"
      by simp
    then have "2 ^ 52 * 2 powi eb \<le> round_double b"
      unfolding rb by (intro mult_right_mono) simp_all
    moreover have "(2::real) ^ 52 * 2 powi eb = 2 powi (eb + 52)"
      by (simp add: power_int_add)
    ultimately show ?thesis
      using 1 by linarith
  qed
qed

lemma round_double_nonneg:
  assumes "0 \<le> v"
  shows "0 \<le> round_double v"
proof (cases "v = 0")
  case True
  then show ?thesis by (simp add: round_double_def)
next
  case False
  with assms have v: "0 < v" by simp
  define e where "e = max (floor_log2 v) (- 1022) - 52"
  have "0 \<le> v / 2 powi e"
    using v by simp
  then have "round_half_even 0 \<le> round_half_even (v / 2 powi e)"
    by (rule round_half_even_mono)
  then have "0 \<le> round_half_even (v / 2 powi e)"
    by (simp add: round_half_even_def)
  then show ?thesis
    using v by (simp add: round_double_def e_def Let_def)
qed



text \<open>The double denoted by the literal \<^verbatim>\<open>0.1\<close> lies above one tenth.\<close>

lemma double_of_tenth: "round_double (1 / 10) = 3602879701896397 / 2 ^ 55"
  by (simp add: round_double_eval)

lemma tenth_bounds: "1 / 10 < round_double (1 / 10)" "0 < round_double (1 / 10)"
  by (simp_all add: double_of_tenth)

lemma double_mul_3_mono:
  assumes "0 < a" and "a \<le> b"
  shows "double_mul a 3 \<le> double_mul b 3"
  unfolding double_mul_def using assms by (intro round_double_mono) simp_all

lemma double_mul_nonneg: "0 \<le> a \<Longrightarrow> 0 \<le> double_mul a 3"
  unfolding double_mul_def by (intro round_double_nonneg) simp

lemma round_double_fixed:
  "round_double 1080 = 1080"
  "round_double (2 ^ 31 - 1) = 2 ^ 31 - 1"
  "round_double (1 / 2) = 1 / 2"
  "round_double (1 - 1 / 2 ^ 54) = 1"
  "round_double (1 - 1 / 2 ^ 53) = 1 - 1 / 2 ^ 53"
  by (simp_all add: round_double_eval)

text \<open>
  The rounded product \<open>i * 3.0\<close> is below \<open>1\<close> exactly when the exact product is below
  \<open>1 - 2 ^ -54\<close>, the midpoint between \<open>1\<close> and the double before it.
\<close>

lemma double_mul_3_less_1_iff:
  assumes "0 < i"
  shows "double_mul i 3 < 1 \<longleftrightarrow> i * 3 < 1 - 1 / 2 ^ 54"
proof
  assume "i * 3 < 1 - 1 / 2 ^ 54"
  define v where "v = i * 3"
  have v: "0 < v" "v < 1 - 1 / 2 ^ 54"
    using assms \<open>i * 3 < 1 - 1 / 2 ^ 54\<close> by (simp_all add: v_def)
  define e where "e = max (floor_log2 \<bar>v\<bar>) (- 1022) - 52"
  have "floor_log2 v < 0"
  proof (rule ccontr)
    assume "\<not> floor_log2 v < 0"
    then have "(2::real) powi 0 \<le> 2 powi (floor_log2 v)"
      by (intro power_int_increasing) simp_all
    also have "\<dots> \<le> v"
      using v(1) by (rule floor_log2_bounds)
    finally show False
      using v(2) by simp
  qed
  then have "e \<le> - 53"
    using v(1) by (simp add: e_def)
  then have "(2::real) powi e \<le> 2 powi (- 53)"
    by (intro power_int_increasing) simp_all
  then have "(2::real) powi e / 2 \<le> 1 / 2 ^ 54"
    by (simp add: power_int_minus field_simps)
  moreover have "\<bar>round_double v - v\<bar> \<le> 2 powi e / 2"
    unfolding e_def using v(1) by (intro round_double_near(1)) simp
  ultimately have "round_double v < 1"
    using v(2) by linarith
  then show "double_mul i 3 < 1"
    by (simp add: double_mul_def v_def)
next
  assume a: "double_mul i 3 < 1"
  show "i * 3 < 1 - 1 / 2 ^ 54"
  proof (rule ccontr)
    assume "\<not> i * 3 < 1 - 1 / 2 ^ 54"
    then have "1 - 1 / 2 ^ 54 \<le> i * 3"
      by simp
    then have "round_double (1 - 1 / 2 ^ 54) \<le> round_double (i * 3)"
      by (intro round_double_mono) simp_all
    then have "1 \<le> round_double (i * 3)"
      by (simp only: round_double_fixed)
    with a show False
      by (simp add: double_mul_def)
  qed
qed

text \<open>The values of the constants.\<close>

lemma PI_eq: "PI = 884279719003555 / 2 ^ 48"
  by (simp add: PI_def round_double_eval)

lemma TWO_PI_eq: "TWO_PI = 884279719003555 / 2 ^ 47"
  by (simp add: TWO_PI_def PI_eq double_mul_def round_double_eval)

lemma TWO_PI_twice: "TWO_PI = 2 * PI"
  by (simp add: TWO_PI_eq PI_eq)

lemma frame_dt_eq: "frame_dt = 3602879701896397 / 2 ^ 55"
  by (simp add: frame_dt_def double_of_tenth)

text \<open>
  The constant \<open>PI\<close> lies below \<open>\<pi>\<close>, so \<open>PI / 2\<close> lies below a quarter turn: its cosine is a
  positive number near \<open>6.1 * 10 ^ -17\<close>.  The bounds come from the expansion of the cosine
  to the order 24, whose terms are enclosed one after the other.
\<close>

lemma cos_coeff_sum_even:
  "(\<Sum>m<2 * n. cos_coeff m * x ^ m) = (\<Sum>k<n. (- 1) ^ k * (x ^ (2 * k) / fact (2 * k)))"
  for x :: real
  by (induction n) (simp_all add: cos_coeff_def)

lemma cos_term_Suc:
  "x ^ (2 * Suc k) / fact (2 * Suc k) =
   x ^ (2 * k) / fact (2 * k) * (x\<^sup>2 / (real (2 * k + 1) * real (2 * k + 2)))" for x :: real
  by (simp add: power2_eq_square field_simps)

lemma cos_term_lower:
  fixes t u c :: real
  assumes "lo' \<le> t" and "ulo \<le> u" and "0 \<le> lo'" and "0 \<le> ulo" and "0 < c"
    and "lo * c \<le> lo' * ulo"
  shows "lo \<le> t * (u / c)"
proof -
  have "lo' * ulo \<le> t * u"
    using assms(1-4) by (intro mult_mono) simp_all
  with assms(6) have "lo * c \<le> t * u" by simp
  then show ?thesis
    using assms(5) by (simp add: field_simps)
qed

lemma cos_term_upper:
  fixes t u c :: real
  assumes "t \<le> hi'" and "u \<le> uhi" and "0 \<le> t" and "0 \<le> u" and "0 < c"
    and "hi' * uhi \<le> hi * c"
  shows "t * (u / c) \<le> hi"
proof -
  have "t * u \<le> hi' * uhi"
    using assms(1-4) by (intro mult_mono) simp_all
  with assms(6) have "t * u \<le> hi * c" by simp
  then show ?thesis
    using assms(5) by (simp add: field_simps)
qed

lemma upt12: "[0..<12] = [0, 1, 2, 3, 4, 5, 6, 7, 8, 9, 10, 11 :: nat]"
  by code_simp

lemma sum12:
  "(\<Sum>k<12. (- 1) ^ k * T k) =
   T 0 - T 1 + T 2 - T 3 + T 4 - T 5 + T 6 - T 7 + T 8 - T 9 + T 10 - T 11" for T :: "nat \<Rightarrow> real"
proof -
  have "(\<Sum>k<12. (- 1) ^ k * T k) = sum_list (map (\<lambda>k. (- 1) ^ k * T k) [0..<12])"
    by (simp add: interv_sum_list_conv_sum_set_nat lessThan_atLeast0)
  then show ?thesis
    unfolding upt12 by simp
qed

lemma cos_half_PI_bounds: "61 / 10 ^ 18 < cos (PI / 2)" "cos (PI / 2) < 62 / 10 ^ 18"
proof -
  define u where "u = (PI / 2)\<^sup>2"
  define T where "T k = (PI / 2) ^ (2 * k) / fact (2 * k)" for k
  have u: "2467401100272339462341553 / 10 ^ 24 \<le> u" "u \<le> 2467401100272339462341554 / 10 ^ 24"
    by (simp_all add: u_def PI_eq power_divide)
  have u0: "0 \<le> u" by (simp add: u_def)
  have step: "T n = T (n - 1) * (u / (real (2 * n - 1) * real (2 * n)))" if "0 < n" for n
  proof -
    from that obtain k where "n = Suc k"
      by (cases n) simp_all
    then show ?thesis
      using cos_term_Suc [where x = "PI / 2" and k = k] by (simp add: T_def u_def)
  qed
  have L0: "1 \<le> T 0" and H0: "T 0 \<le> 1" and P0: "0 \<le> T 0"
    by (simp_all add: T_def)
  have S1: "T 1 = T 0 * (u / 2)"
    using step [of 1] by simp
  have L1: "1233700550136169731170776 / 10 ^ 24 \<le> T 1"
    unfolding S1 by (rule cos_term_lower [OF L0 u(1)]) simp_all
  have H1: "T 1 \<le> 1233700550136169731170777 / 10 ^ 24"
    unfolding S1 by (rule cos_term_upper [OF H0 u(2) P0 u0]) simp_all
  have P1: "0 \<le> T 1"
    using L1 by simp
  have S2: "T 2 = T 1 * (u / 12)"
    using step [of 2] by simp
  have L2: "253669507901047974082669 / 10 ^ 24 \<le> T 2"
    unfolding S2 by (rule cos_term_lower [OF L1 u(1)]) simp_all
  have H2: "T 2 \<le> 253669507901047974082671 / 10 ^ 24"
    unfolding S2 by (rule cos_term_upper [OF H1 u(2) P1 u0]) simp_all
  have P2: "0 \<le> T 2"
    using L2 by simp
  have S3: "T 3 = T 2 * (u / 30)"
    using step [of 3] by simp
  have L3: "20863480763352955993285 / 10 ^ 24 \<le> T 3"
    unfolding S3 by (rule cos_term_lower [OF L2 u(1)]) simp_all
  have H3: "T 3 \<le> 20863480763352955993286 / 10 ^ 24"
    unfolding S3 by (rule cos_term_upper [OF H2 u(2) P2 u0]) simp_all
  have P3: "0 \<le> T 3"
    using L3 by simp
  have S4: "T 4 = T 3 * (u / 56)"
    using step [of 4] by simp
  have L4: "919260274839426293566 / 10 ^ 24 \<le> T 4"
    unfolding S4 by (rule cos_term_lower [OF L3 u(1)]) simp_all
  have H4: "T 4 \<le> 919260274839426293567 / 10 ^ 24"
    unfolding S4 by (rule cos_term_upper [OF H3 u(2) P3 u0]) simp_all
  have P4: "0 \<le> T 4"
    using L4 by simp
  have S5: "T 5 = T 4 * (u / 90)"
    using step [of 5] by simp
  have L5: "25202042373060595656 / 10 ^ 24 \<le> T 5"
    unfolding S5 by (rule cos_term_lower [OF L4 u(1)]) simp_all
  have H5: "T 5 \<le> 25202042373060595657 / 10 ^ 24"
    unfolding S5 by (rule cos_term_upper [OF H4 u(2) P4 u0]) simp_all
  have P5: "0 \<le> T 5"
    using L5 by simp
  have S6: "T 6 = T 5 * (u / 132)"
    using step [of 6] by simp
  have L6: "471087477881816929 / 10 ^ 24 \<le> T 6"
    unfolding S6 by (rule cos_term_lower [OF L5 u(1)]) simp_all
  have H6: "T 6 \<le> 471087477881816931 / 10 ^ 24"
    unfolding S6 by (rule cos_term_upper [OF H5 u(2) P5 u0]) simp_all
  have P6: "0 \<le> T 6"
    using L6 by simp
  have S7: "T 7 = T 6 * (u / 182)"
    using step [of 7] by simp
  have L7: "6386603083791848 / 10 ^ 24 \<le> T 7"
    unfolding S7 by (rule cos_term_lower [OF L6 u(1)]) simp_all
  have H7: "T 7 \<le> 6386603083791849 / 10 ^ 24"
    unfolding S7 by (rule cos_term_upper [OF H6 u(2) P6 u0]) simp_all
  have P7: "0 \<le> T 7"
    using L7 by simp
  have S8: "T 8 = T 7 * (u / 240)"
    using step [of 8] by simp
  have L8: "65659631149794 / 10 ^ 24 \<le> T 8"
    unfolding S8 by (rule cos_term_lower [OF L7 u(1)]) simp_all
  have H8: "T 8 \<le> 65659631149795 / 10 ^ 24"
    unfolding S8 by (rule cos_term_upper [OF H7 u(2) P7 u0]) simp_all
  have P8: "0 \<le> T 8"
    using L8 by simp
  have S9: "T 9 = T 8 * (u / 306)"
    using step [of 9] by simp
  have L9: "529440020073 / 10 ^ 24 \<le> T 9"
    unfolding S9 by (rule cos_term_lower [OF L8 u(1)]) simp_all
  have H9: "T 9 \<le> 529440020074 / 10 ^ 24"
    unfolding S9 by (rule cos_term_upper [OF H8 u(2) P8 u0]) simp_all
  have P9: "0 \<le> T 9"
    using L9 by simp
  have S10: "T 10 = T 9 * (u / 380)"
    using step [of 10] by simp
  have L10: "3437739179 / 10 ^ 24 \<le> T 10"
    unfolding S10 by (rule cos_term_lower [OF L9 u(1)]) simp_all
  have H10: "T 10 \<le> 3437739180 / 10 ^ 24"
    unfolding S10 by (rule cos_term_upper [OF H9 u(2) P9 u0]) simp_all
  have P10: "0 \<le> T 10"
    using L10 by simp
  have S11: "T 11 = T 10 * (u / 462)"
    using step [of 11] by simp
  have L11: "18359916 / 10 ^ 24 \<le> T 11"
    unfolding S11 by (rule cos_term_lower [OF L10 u(1)]) simp_all
  have H11: "T 11 \<le> 18359917 / 10 ^ 24"
    unfolding S11 by (rule cos_term_upper [OF H10 u(2) P10 u0]) simp_all
  have P11: "0 \<le> T 11"
    using L11 by simp
  have S12: "T 12 = T 11 * (u / 552)"
    using step [of 12] by simp
  have L12: "82067 / 10 ^ 24 \<le> T 12"
    unfolding S12 by (rule cos_term_lower [OF L11 u(1)]) simp_all
  have H12: "T 12 \<le> 82068 / 10 ^ 24"
    unfolding S12 by (rule cos_term_upper [OF H11 u(2) P11 u0]) simp_all
  have P12: "0 \<le> T 12"
    using L12 by simp
  obtain t where t: "cos (PI / 2) =
      (\<Sum>m<24. cos_coeff m * (PI / 2) ^ m) + cos (t + 1 / 2 * real 24 * pi) / fact 24 * (PI / 2) ^ 24"
    using Maclaurin_cos_expansion2 [of "PI / 2" 24] by (auto simp: PI_eq)
  have "(\<Sum>m<24. cos_coeff m * (PI / 2) ^ m) = (\<Sum>k<12. (- 1) ^ k * T k)"
    using cos_coeff_sum_even [where n = 12 and x = "PI / 2"] by (simp add: T_def)
  also have "\<dots> = T 0 - T 1 + T 2 - T 3 + T 4 - T 5 + T 6 - T 7 + T 8 - T 9 + T 10 - T 11"
    by (rule sum12)
  finally have s: "(\<Sum>m<24. cos_coeff m * (PI / 2) ^ m) =
      T 0 - T 1 + T 2 - T 3 + T 4 - T 5 + T 6 - T 7 + T 8 - T 9 + T 10 - T 11" .
  define R where "R = cos (t + 1 / 2 * real 24 * pi) * T 12"
  have "- 1 \<le> cos (t + 1 / 2 * real 24 * pi)" "cos (t + 1 / 2 * real 24 * pi) \<le> 1"
    by simp_all
  then have R: "- T 12 \<le> R" "R \<le> T 12"
    using P12 mult_right_mono [of "- 1" "cos (t + 1 / 2 * real 24 * pi)" "T 12"]
      mult_right_mono [of "cos (t + 1 / 2 * real 24 * pi)" 1 "T 12"]
    by (simp_all add: R_def)
  have "cos (t + 1 / 2 * real 24 * pi) / fact 24 * (PI / 2) ^ 24 = R"
    by (simp add: R_def T_def)
  with t s have c: "cos (PI / 2) =
      T 0 - T 1 + T 2 - T 3 + T 4 - T 5 + T 6 - T 7 + T 8 - T 9 + T 10 - T 11 + R"
    by simp
  show "61 / 10 ^ 18 < cos (PI / 2)"
    unfolding c using L0 H1 L2 H3 L4 H5 L6 H7 L8 H9 L10 H11 R(1) H12 by (simp; linarith)
  show "cos (PI / 2) < 62 / 10 ^ 18"
    unfolding c using H0 L1 H2 L3 H4 L5 H6 L7 H8 L9 H10 L11 R(2) H12 by (simp; linarith)
qed


lemma PI_half_range: "0 < PI / 2" "PI / 2 < 2"
  by (simp_all add: PI_eq)

lemma PI_less_pi: "PI < pi"
proof (rule ccontr)
  assume "\<not> PI < pi"
  then have "pi / 2 \<le> PI / 2" by simp
  moreover have "PI / 2 \<le> pi"
    using PI_half_range(2) pi_ge_two by linarith
  ultimately have "cos (PI / 2) \<le> cos (pi / 2)"
    by (intro cos_monotone_0_pi_le) simp_all
  with cos_half_PI_bounds(1) show False
    by simp
qed


subsection \<open>Vec2\<close>

lemma Vec2_length_nonneg: "0 \<le> Vec2_length a"
  by (simp add: Vec2_length_def)

lemma Vec2_length_zero_iff: "Vec2_length a = 0 \<longleftrightarrow> x a = 0 \<and> y a = 0"
  by (simp add: Vec2_length_def sum_power2_eq_zero_iff flip: power2_eq_square)

text \<open>
  Claim C6.  Normalisation is total: it returns a vector for every argument, the zero
  vector when the length is zero, and the quotient by the length otherwise, the length
  being positive whenever a division is made.
\<close>

theorem normalized_total:
  "(\<exists>u. normalized a = Some u) \<and>
   (Vec2_length a = 0 \<longrightarrow> normalized a = Some \<lparr>x = 0, y = 0\<rparr>) \<and>
   (Vec2_length a \<noteq> 0 \<longrightarrow>
      0 < Vec2_length a \<and>
      divide_checked (x a) (Vec2_length a) = Some (x a / Vec2_length a) \<and>
      divide_checked (y a) (Vec2_length a) = Some (y a / Vec2_length a) \<and>
      normalized a = Some \<lparr>x = x a / Vec2_length a, y = y a / Vec2_length a\<rparr>)"
proof (cases "Vec2_length a = 0")
  case True
  then show ?thesis
    by (simp add: normalized_def)
next
  case False
  with Vec2_length_nonneg [of a] have "0 < Vec2_length a"
    by simp
  then show ?thesis
    by (simp add: normalized_def divide_checked_def Let_def)
qed

theorem normalized_total_witness:
  "Vec2_length \<lparr>x = 0, y = 0\<rparr> = 0 \<and> normalized \<lparr>x = 0, y = 0\<rparr> = Some \<lparr>x = 0, y = 0\<rparr> \<and>
   Vec2_length \<lparr>x = 3, y = 4\<rparr> = 5 \<and> normalized \<lparr>x = 3, y = 4\<rparr> = Some \<lparr>x = 3 / 5, y = 4 / 5\<rparr>"
proof -
  have len0: "Vec2_length \<lparr>x = 0, y = 0\<rparr> = 0"
    by (simp add: Vec2_length_def)
  have "sqrt 25 = sqrt (5\<^sup>2)"
    by simp
  then have len5: "Vec2_length \<lparr>x = 3, y = 4\<rparr> = 5"
    unfolding Vec2_length_def by (simp del: real_sqrt_four)
  show ?thesis
    using normalized_total [of "\<lparr>x = 0, y = 0\<rparr>"] normalized_total [of "\<lparr>x = 3, y = 4\<rparr>"]
      len0 len5
    by simp
qed

subsection \<open>Projection\<close>




subsection \<open>The layout created by the constructor\<close>

lemma random_double_snd [simp]: "snd (random_double rng a b k) = Suc k"
  by (simp add: random_double_def)

lemma random_double_fst [simp]: "fst (random_double rng a b k) = a + (b - a) * rng k"
  by (simp add: random_double_def)

lemma arm_particle_snd [simp]: "snd (arm_particle rng arm i k) = k + 2"
  by (simp add: arm_particle_def Let_def split_def)

lemma core_particle_snd [simp]: "snd (core_particle rng k) = k + 3"
  by (simp add: core_particle_def Let_def split_def)

lemma new_star_snd [simp]: "snd (new_star rng w h k) = k + 5"
  by (simp add: new_star_def Let_def split_def)

lemma arm_list_step:
  assumes "i < particles_per_arm"
  shows "arm_list rng arm i k = fst (arm_particle rng arm i k) # arm_list rng arm (Suc i) (k + 2)"
proof -
  have "map (\<lambda>j. fst (arm_particle rng arm j (k + 2 * (j - i)))) [Suc i..<particles_per_arm]
      = map (\<lambda>j. fst (arm_particle rng arm j (k + 2 + 2 * (j - Suc i)))) [Suc i..<particles_per_arm]"
  proof (rule map_cong)
    fix j assume "j \<in> set [Suc i..<particles_per_arm]"
    then have "k + 2 * (j - i) = k + 2 + 2 * (j - Suc i)"
      by auto
    then show "fst (arm_particle rng arm j (k + 2 * (j - i)))
             = fst (arm_particle rng arm j (k + 2 + 2 * (j - Suc i)))"
      by (simp only:)
  qed simp
  with assms show ?thesis
    by (simp add: arm_list_def upt_conv_Cons)
qed

lemma init_arm_loop_closed:
  "i \<le> particles_per_arm \<Longrightarrow>
   init_arm_loop rng arm i (ps, k) = (ps @ arm_list rng arm i k, k + 2 * (particles_per_arm - i))"
proof (induction rng arm i "(ps, k)" arbitrary: ps k rule: init_arm_loop.induct)
  case (1 rng arm i ps k)
  show ?case
  proof (cases "i < particles_per_arm")
    case True
    obtain p k' where pk: "arm_particle rng arm i k = (p, k')"
      by (cases "arm_particle rng arm i k")
    then have k': "k' = k + 2" and p: "p = fst (arm_particle rng arm i k)"
      using arm_particle_snd [of rng arm i k] by simp_all
    have "init_arm_loop rng arm i (ps, k) = init_arm_loop rng arm (Suc i) (ps @ [p], k')"
      using True pk by (simp add: init_arm_loop.simps [of rng arm i])
    also have "\<dots> = ((ps @ [p]) @ arm_list rng arm (Suc i) k', k' + 2 * (particles_per_arm - Suc i))"
      using "1.hyps" [OF True pk [symmetric] refl] True by simp
    finally show ?thesis
      using True by (simp add: arm_list_step [OF True] k' p)
  next
    case False
    then have "init_arm_loop rng arm i (ps, k) = (ps, k)"
      by (subst init_arm_loop.simps) simp
    with False "1.prems" show ?thesis
      by (simp add: arm_list_def)
  qed
qed

lemma init_spiral_arms_closed:
  "init_spiral_arms rng (ps, k) =
     (ps @ arm_list rng 0 0 k @ arm_list rng 1 0 (k + 300), k + 600)"
proof -
  have "init_spiral_arms_loop rng 2 st = st" for st
    by (subst init_spiral_arms_loop.simps) (simp add: num_arms_def)
  then show ?thesis
    unfolding init_spiral_arms_def
    apply (subst init_spiral_arms_loop.simps)
    apply (subst init_spiral_arms_loop.simps)
    apply (simp add: num_arms_def init_arm_loop_closed)
    apply (simp add: particles_per_arm_def numeral_2_eq_2)
    done
qed

lemma core_list_step:
  assumes "i < core_particles"
  shows "core_list rng i k = fst (core_particle rng k) # core_list rng (Suc i) (k + 3)"
proof -
  have "map (\<lambda>j. fst (core_particle rng (k + 3 * (j - i)))) [Suc i..<core_particles]
      = map (\<lambda>j. fst (core_particle rng (k + 3 + 3 * (j - Suc i)))) [Suc i..<core_particles]"
  proof (rule map_cong)
    fix j assume "j \<in> set [Suc i..<core_particles]"
    then have "k + 3 * (j - i) = k + 3 + 3 * (j - Suc i)"
      by auto
    then show "fst (core_particle rng (k + 3 * (j - i)))
             = fst (core_particle rng (k + 3 + 3 * (j - Suc i)))"
      by (simp only:)
  qed simp
  with assms show ?thesis
    by (simp add: core_list_def upt_conv_Cons)
qed

lemma init_core_loop_closed:
  "i \<le> core_particles \<Longrightarrow>
   init_core_loop rng i (ps, k) = (ps @ core_list rng i k, k + 3 * (core_particles - i))"
proof (induction rng i "(ps, k)" arbitrary: ps k rule: init_core_loop.induct)
  case (1 rng i ps k)
  show ?case
  proof (cases "i < core_particles")
    case True
    obtain p k' where pk: "core_particle rng k = (p, k')"
      by (cases "core_particle rng k")
    then have k': "k' = k + 3" and p: "p = fst (core_particle rng k)"
      using core_particle_snd [of rng k] by simp_all
    have "init_core_loop rng i (ps, k) = init_core_loop rng (Suc i) (ps @ [p], k')"
      using True pk by (simp add: init_core_loop.simps [of rng i])
    also have "\<dots> = ((ps @ [p]) @ core_list rng (Suc i) k', k' + 3 * (core_particles - Suc i))"
      using "1.hyps" [OF True pk [symmetric] refl] True by simp
    finally show ?thesis
      using True by (simp add: core_list_step [OF True] k' p)
  next
    case False
    then have "init_core_loop rng i (ps, k) = (ps, k)"
      by (subst init_core_loop.simps) simp
    with False "1.prems" show ?thesis
      by (simp add: core_list_def)
  qed
qed

lemma star_list_step:
  assumes "i < num_stars"
  shows "star_list rng w h i k = fst (new_star rng w h k) # star_list rng w h (Suc i) (k + 5)"
proof -
  have "map (\<lambda>j. fst (new_star rng w h (k + 5 * (j - i)))) [Suc i..<num_stars]
      = map (\<lambda>j. fst (new_star rng w h (k + 5 + 5 * (j - Suc i)))) [Suc i..<num_stars]"
  proof (rule map_cong)
    fix j assume "j \<in> set [Suc i..<num_stars]"
    then have "k + 5 * (j - i) = k + 5 + 5 * (j - Suc i)"
      by auto
    then show "fst (new_star rng w h (k + 5 * (j - i)))
             = fst (new_star rng w h (k + 5 + 5 * (j - Suc i)))"
      by (simp only:)
  qed simp
  with assms show ?thesis
    by (simp add: star_list_def upt_conv_Cons)
qed

lemma init_background_stars_loop_closed:
  "i \<le> num_stars \<Longrightarrow>
   init_background_stars_loop rng w h i (ss, k) =
     (ss @ star_list rng w h i k, k + 5 * (num_stars - i))"
proof (induction rng w h i "(ss, k)" arbitrary: ss k rule: init_background_stars_loop.induct)
  case (1 rng w h i ss k)
  show ?case
  proof (cases "i < num_stars")
    case True
    obtain s k' where sk: "new_star rng w h k = (s, k')"
      by (cases "new_star rng w h k")
    then have k': "k' = k + 5" and s: "s = fst (new_star rng w h k)"
      using new_star_snd [of rng w h k] by simp_all
    have "init_background_stars_loop rng w h i (ss, k) =
          init_background_stars_loop rng w h (Suc i) (ss @ [s], k')"
      using True sk by (simp add: init_background_stars_loop.simps [of rng w h i])
    also have "\<dots> = ((ss @ [s]) @ star_list rng w h (Suc i) k', k' + 5 * (num_stars - Suc i))"
      using "1.hyps" [OF True sk [symmetric] refl] True by simp
    finally show ?thesis
      using True by (simp add: star_list_step [OF True] k' s)
  next
    case False
    then have "init_background_stars_loop rng w h i (ss, k) = (ss, k)"
      by (subst init_background_stars_loop.simps) simp
    with False "1.prems" show ?thesis
      by (simp add: star_list_def)
  qed
qed

lemma Galaxy_new_closed:
  assumes "0 \<le> w" "0 \<le> h"
  shows "Galaxy_new rng w h =
     Some \<lparr>particles = arm_list rng 0 0 0 @ arm_list rng 1 0 300 @ core_list rng 0 600,
           stars = star_list rng w h 0 780,
           center = \<lparr>x = real_of_int w / 2, y = real_of_int h / 2\<rparr>,
           width = w, height = h, time = 0, aspect_ratio = 2\<rparr>"
  using assms
  by (simp add: Galaxy_new_def init_spiral_arms_closed init_core_def init_core_loop_closed
      init_background_stars_def init_background_stars_loop_closed core_particles_def)

lemma length_arm_list [simp]: "length (arm_list rng arm 0 k) = 150"
  by (simp add: arm_list_def particles_per_arm_def)

lemma length_core_list [simp]: "length (core_list rng 0 k) = 60"
  by (simp add: core_list_def core_particles_def)

lemma length_star_list [simp]: "length (star_list rng w h 0 k) = 80"
  by (simp add: star_list_def num_stars_def)

lemma nth_arm_list:
  "j < 150 \<Longrightarrow> arm_list rng arm 0 k ! j = fst (arm_particle rng arm j (k + 2 * j))"
  by (simp add: arm_list_def particles_per_arm_def)

lemma nth_core_list:
  "j < 60 \<Longrightarrow> core_list rng 0 k ! j = fst (core_particle rng (k + 3 * j))"
  by (simp add: core_list_def core_particles_def)

lemma nth_star_list:
  "j < 80 \<Longrightarrow> star_list rng w h 0 k ! j = fst (new_star rng w h (k + 5 * j))"
  by (simp add: star_list_def num_stars_def)

lemma arm_particle_fields:
  "radius (fst (arm_particle rng arm i k)) =
     2 + real i / 150 * 14 + (2 * rng k - 1) * (1 / 2 + real i / 150 * (3 / 2))"
  "angle (fst (arm_particle rng arm i k)) =
     real arm * PI + real i / 150 * (5 / 2) * PI + (2 / 5 * rng (Suc k) - 1 / 5)"
  "angular_velocity (fst (arm_particle rng arm i k)) =
     (3 / 20) / sqrt (radius (fst (arm_particle rng arm i k)))"
  "brightness (fst (arm_particle rng arm i k)) = 3 / 10 + 7 / 10 * (1 - real i / 150 * (3 / 5))"
  by (simp_all add: arm_particle_def Let_def split_def Particle_new_def random_double_def
      particles_per_arm_def field_simps)

lemma core_particle_fields:
  "radius (fst (core_particle rng k)) = 1 / 2 + 5 / 2 * rng k"
  "angle (fst (core_particle rng k)) = TWO_PI * rng (Suc k)"
  "angular_velocity (fst (core_particle rng k)) =
     (3 / 10) / sqrt (radius (fst (core_particle rng k)) + 1 / 2)"
  "brightness (fst (core_particle rng k)) = 4 / 5 + 1 / 5 * rng (Suc (Suc k))"
  by (simp_all add: core_particle_def Let_def split_def Particle_new_def random_double_def
      algebra_simps)

lemma new_star_fields:
  "phase (fst (new_star rng w h k)) = TWO_PI * rng (k + 2)"
  "speed (fst (new_star rng w h k)) = 1 / 2 + 3 / 2 * rng (k + 3)"
  "base_brightness (fst (new_star rng w h k)) = 3 / 10 + 7 / 10 * rng (k + 4)"
  "x (pos (fst (new_star rng w h k))) = real_of_int w * rng k"
  "y (pos (fst (new_star rng w h k))) = real_of_int h * rng (Suc k)"
  by (simp_all add: new_star_def Let_def split_def random_double_def algebra_simps
      numeral_eq_Suc)

lemma PI_pos: "0 < PI" and TWO_PI_pos: "0 < TWO_PI" and TWO_PI_gt_6: "6 < TWO_PI"
  by (simp_all add: PI_eq TWO_PI_eq)

lemma arm_particle_radius:
  assumes "valid_draws rng" "i < particles_per_arm"
  shows "3 / 2 \<le> radius (fst (arm_particle rng arm i k))"
proof -
  define t where "t = real i / 150"
  have t: "0 \<le> t" by (simp add: t_def)
  have u: "0 \<le> rng k" using assms(1) by (simp add: valid_draws_def)
  have "- 1 * (1 / 2 + t * (3 / 2)) \<le> (2 * rng k - 1) * (1 / 2 + t * (3 / 2))"
    using t u by (intro mult_right_mono) auto
  then have "3 / 2 + t * (25 / 2) \<le> 2 + t * 14 + (2 * rng k - 1) * (1 / 2 + t * (3 / 2))"
    by simp
  with t show ?thesis
    unfolding arm_particle_fields t_def [symmetric] by linarith
qed

lemma arm_particle_angle:
  assumes "valid_draws rng" "i < particles_per_arm" "arm < num_arms"
  shows "- (1 / 5) \<le> angle (fst (arm_particle rng arm i k))"
    and "angle (fst (arm_particle rng arm i k)) < 7 / 2 * PI + 1 / 5"
proof -
  define t where "t = real i / 150"
  have t: "0 \<le> t" "t < 1" using assms(2) by (simp_all add: t_def particles_per_arm_def)
  have u: "0 \<le> rng (Suc k)" "rng (Suc k) < 1" using assms(1) by (simp_all add: valid_draws_def)
  have a: "0 \<le> real arm" "real arm \<le> 1" using assms(3) by (simp_all add: num_arms_def)
  have 1: "0 \<le> real arm * PI" "real arm * PI \<le> 1 * PI"
    using a PI_pos by (simp_all add: mult_right_mono)
  have 2: "0 \<le> t * (5 / 2) * PI" "t * (5 / 2) * PI \<le> 1 * (5 / 2) * PI"
    using t PI_pos by (simp_all add: mult_right_mono)
  show "- (1 / 5) \<le> angle (fst (arm_particle rng arm i k))"
    unfolding arm_particle_fields t_def [symmetric] using 1 2 u by linarith
  show "angle (fst (arm_particle rng arm i k)) < 7 / 2 * PI + 1 / 5"
    unfolding arm_particle_fields t_def [symmetric] using 1 2 u by linarith
qed

lemma arm_particle_velocity:
  assumes "valid_draws rng" "i < particles_per_arm"
  shows "0 < angular_velocity (fst (arm_particle rng arm i k))"
    and "angular_velocity (fst (arm_particle rng arm i k)) \<le> 3 / 20"
proof -
  let ?r = "radius (fst (arm_particle rng arm i k))"
  have r: "1 \<le> ?r" using arm_particle_radius [OF assms, of arm k] by simp
  then have s: "1 \<le> sqrt ?r" by simp
  then show "0 < angular_velocity (fst (arm_particle rng arm i k))"
    by (simp add: arm_particle_fields(3))
  have "(3 / 20) / sqrt ?r \<le> (3 / 20) / 1"
    using s by (intro divide_left_mono) auto
  then show "angular_velocity (fst (arm_particle rng arm i k)) \<le> 3 / 20"
    by (simp add: arm_particle_fields(3))
qed

lemma arm_particle_brightness:
  assumes "i < particles_per_arm"
  shows "0 \<le> brightness (fst (arm_particle rng arm i k))"
    and "brightness (fst (arm_particle rng arm i k)) \<le> 1"
proof -
  define t where "t = real i / 150"
  have t: "0 \<le> t" "t < 1" using assms by (simp_all add: t_def particles_per_arm_def)
  have e: "7 / 10 * (1 - t * (3 / 5)) = 7 / 10 - 21 / 50 * t"
    by (simp add: algebra_simps)
  show "0 \<le> brightness (fst (arm_particle rng arm i k))"
    unfolding arm_particle_fields t_def [symmetric] e using t by linarith
  show "brightness (fst (arm_particle rng arm i k)) \<le> 1"
    unfolding arm_particle_fields t_def [symmetric] e using t by linarith
qed

lemma core_particle_bounds:
  assumes "valid_draws rng"
  shows "1 / 2 \<le> radius (fst (core_particle rng k))"
    and "0 \<le> angle (fst (core_particle rng k))"
    and "angle (fst (core_particle rng k)) < TWO_PI"
    and "0 < angular_velocity (fst (core_particle rng k))"
    and "angular_velocity (fst (core_particle rng k)) \<le> 3 / 10"
    and "0 \<le> brightness (fst (core_particle rng k))"
    and "brightness (fst (core_particle rng k)) \<le> 1"
proof -
  have u: "0 \<le> rng j" "rng j < 1" for j using assms by (simp_all add: valid_draws_def)
  show r: "1 / 2 \<le> radius (fst (core_particle rng k))"
    using u [of k] by (simp add: core_particle_fields)
  show "0 \<le> angle (fst (core_particle rng k))"
    using u [of "Suc k"] TWO_PI_pos by (simp add: core_particle_fields)
  show "angle (fst (core_particle rng k)) < TWO_PI"
    using u [of "Suc k"] TWO_PI_pos by (simp add: core_particle_fields)
  have s: "1 \<le> sqrt (radius (fst (core_particle rng k)) + 1 / 2)"
    using r by simp
  then show "0 < angular_velocity (fst (core_particle rng k))"
    by (simp add: core_particle_fields(3))
  have "(3 / 10) / sqrt (radius (fst (core_particle rng k)) + 1 / 2) \<le> (3 / 10) / 1"
    using s by (intro divide_left_mono) auto
  then show "angular_velocity (fst (core_particle rng k)) \<le> 3 / 10"
    by (simp add: core_particle_fields(3))
  show "0 \<le> brightness (fst (core_particle rng k))"
    using u [of "Suc (Suc k)"] by (simp add: core_particle_fields)
  show "brightness (fst (core_particle rng k)) \<le> 1"
    using u [of "Suc (Suc k)"] by (simp add: core_particle_fields)
qed

lemma new_star_bounds:
  assumes "valid_draws rng"
  shows "0 \<le> phase (fst (new_star rng w h k))"
    and "phase (fst (new_star rng w h k)) < TWO_PI"
    and "1 / 2 \<le> speed (fst (new_star rng w h k))"
    and "speed (fst (new_star rng w h k)) < 2"
proof -
  have u: "0 \<le> rng j" "rng j < 1" for j using assms by (simp_all add: valid_draws_def)
  show "0 \<le> phase (fst (new_star rng w h k))"
    using u [of "k + 2"] TWO_PI_pos by (simp add: new_star_fields)
  show "phase (fst (new_star rng w h k)) < TWO_PI"
    using u [of "k + 2"] TWO_PI_pos by (simp add: new_star_fields)
  show "1 / 2 \<le> speed (fst (new_star rng w h k))"
    using u [of "k + 3"] by (simp add: new_star_fields)
  show "speed (fst (new_star rng w h k)) < 2"
    using u [of "k + 3"] by (simp add: new_star_fields)
qed

lemma valid_mid_draws: "valid_draws mid_draws"
  by (simp add: valid_draws_def mid_draws_def)

lemma Galaxy_new_particles:
  assumes "Galaxy_new rng w h = Some g"
  shows "particles g = arm_list rng 0 0 0 @ arm_list rng 1 0 300 @ core_list rng 0 600"
    and "stars g = star_list rng w h 0 780"
    and "width g = w" and "height g = h"
    and "center g = \<lparr>x = real_of_int w / 2, y = real_of_int h / 2\<rparr>"
    and "aspect_ratio g = 2"
proof -
  from assms have wh: "0 \<le> w" "0 \<le> h"
    by (auto simp: Galaxy_new_def split: if_splits)
  from assms Galaxy_new_closed [OF wh, of rng]
  show "particles g = arm_list rng 0 0 0 @ arm_list rng 1 0 300 @ core_list rng 0 600"
    and "stars g = star_list rng w h 0 780"
    and "width g = w" and "height g = h"
    and "center g = \<lparr>x = real_of_int w / 2, y = real_of_int h / 2\<rparr>"
    and "aspect_ratio g = 2"
    by auto
qed

lemma Galaxy_new_nth:
  assumes "Galaxy_new rng w h = Some g"
  shows "i < 150 \<Longrightarrow> particles g ! i = fst (arm_particle rng 0 i (2 * i))"
    and "150 \<le> i \<Longrightarrow> i < 300 \<Longrightarrow>
           particles g ! i = fst (arm_particle rng 1 (i - 150) (300 + 2 * (i - 150)))"
    and "300 \<le> i \<Longrightarrow> i < 360 \<Longrightarrow>
           particles g ! i = fst (core_particle rng (600 + 3 * (i - 300)))"
    and "length (particles g) = 360"
    and "j < 80 \<Longrightarrow> stars g ! j = fst (new_star rng w h (780 + 5 * j))"
    and "length (stars g) = 80"
  by (simp_all add: Galaxy_new_particles [OF assms] nth_append nth_arm_list nth_core_list
      nth_star_list)

text \<open>
  Claim C4, as amended.  Whatever the generator draws, the constructor creates 360
  particles with a non-negative radius and a brightness in \<open>[0, 1]\<close>.  The 60 particles
  of the core cluster (indices 300 to 359) have an angle in \<open>[0, TWO_PI)\<close>.  The 300
  particles of the spiral arms are created with the unwrapped angle
  \<open>arm_offset + 2.5 * PI * t + U(-0.2, 0.2)\<close>, which lies in \<open>[-0.2, 3.5 * PI + 0.2)\<close>;
  the last particle of the second arm is created with an angle above \<open>TWO_PI\<close>.
\<close>

theorem created_particles_bounds:
  assumes "valid_draws rng" and "Galaxy_new rng w h = Some g"
  shows "length (particles g) = 360 \<and>
    (\<forall>i<360. 0 \<le> radius (particles g ! i) \<and>
       0 \<le> brightness (particles g ! i) \<and> brightness (particles g ! i) \<le> 1 \<and>
       (i < 300 \<longrightarrow> - (1 / 5) \<le> angle (particles g ! i) \<and>
                    angle (particles g ! i) < 7 / 2 * PI + 1 / 5) \<and>
       (300 \<le> i \<longrightarrow> 0 \<le> angle (particles g ! i) \<and> angle (particles g ! i) < TWO_PI)) \<and>
    TWO_PI < angle (particles g ! 299)"
proof (intro conjI allI impI)
  note nth = Galaxy_new_nth [OF assms(2)]
  show "length (particles g) = 360" by (rule nth(4))
  have arm_i: "\<exists>arm j k. arm < num_arms \<and> j < particles_per_arm \<and>
                 particles g ! i = fst (arm_particle rng arm j k)" if "i < 300" for i
  proof (cases "i < 150")
    case True
    then have "(0::nat) < num_arms \<and> i < particles_per_arm \<and>
        particles g ! i = fst (arm_particle rng 0 i (2 * i))"
      using nth(1) [of i] by (simp add: num_arms_def particles_per_arm_def)
    then show ?thesis by blast
  next
    case False
    with that have "(1::nat) < num_arms \<and> i - 150 < particles_per_arm \<and>
        particles g ! i = fst (arm_particle rng 1 (i - 150) (300 + 2 * (i - 150)))"
      using nth(2) [of i] by (simp add: num_arms_def particles_per_arm_def)
    then show ?thesis by blast
  qed
  have core_i: "\<exists>k. particles g ! i = fst (core_particle rng k)" if "300 \<le> i" "i < 360" for i
    using nth(3) [OF that] by blast
  {
    fix i :: nat assume i: "i < 360"
    show "0 \<le> radius (particles g ! i)"
    proof (cases "i < 300")
      case True
      then obtain arm j k where "j < particles_per_arm"
        "particles g ! i = fst (arm_particle rng arm j k)"
        using arm_i by blast
      then show ?thesis
        using arm_particle_radius [OF assms(1), of j arm k] by simp
    next
      case False
      then obtain k where "particles g ! i = fst (core_particle rng k)"
        using core_i [of i] i by auto
      then show ?thesis
        using core_particle_bounds(1) [OF assms(1), of k] by simp
    qed
    show "0 \<le> brightness (particles g ! i)"
    proof (cases "i < 300")
      case True
      then obtain arm j k where "j < particles_per_arm"
        "particles g ! i = fst (arm_particle rng arm j k)"
        using arm_i by blast
      then show ?thesis
        using arm_particle_brightness(1) [of j rng arm k] by simp
    next
      case False
      then obtain k where "particles g ! i = fst (core_particle rng k)"
        using core_i [of i] i by auto
      then show ?thesis
        using core_particle_bounds(6) [OF assms(1), of k] by simp
    qed
    show "brightness (particles g ! i) \<le> 1"
    proof (cases "i < 300")
      case True
      then obtain arm j k where "j < particles_per_arm"
        "particles g ! i = fst (arm_particle rng arm j k)"
        using arm_i by blast
      then show ?thesis
        using arm_particle_brightness(2) [of j rng arm k] by simp
    next
      case False
      then obtain k where "particles g ! i = fst (core_particle rng k)"
        using core_i [of i] i by auto
      then show ?thesis
        using core_particle_bounds(7) [OF assms(1), of k] by simp
    qed
    {
      assume "i < 300"
      then obtain arm j k where *: "arm < num_arms" "j < particles_per_arm"
        "particles g ! i = fst (arm_particle rng arm j k)"
        using arm_i by blast
      show "- (1 / 5) \<le> angle (particles g ! i)"
        using arm_particle_angle(1) [OF assms(1) *(2) *(1), of k] *(3) by simp
      show "angle (particles g ! i) < 7 / 2 * PI + 1 / 5"
        using arm_particle_angle(2) [OF assms(1) *(2) *(1), of k] *(3) by simp
    }
    {
      assume "300 \<le> i"
      then obtain k where *: "particles g ! i = fst (core_particle rng k)"
        using core_i [of i] i by auto
      show "0 \<le> angle (particles g ! i)"
        using core_particle_bounds(2) [OF assms(1), of k] * by simp
      show "angle (particles g ! i) < TWO_PI"
        using core_particle_bounds(3) [OF assms(1), of k] * by simp
    }
  }
  have "0 \<le> rng 599"
    using assms(1) by (simp add: valid_draws_def)
  then show "TWO_PI < angle (particles g ! 299)"
    using nth(2) [of 299]
    by (simp add: arm_particle_fields PI_eq TWO_PI_eq)
qed

theorem created_particles_bounds_witness:
  "valid_draws mid_draws \<and> Galaxy_new mid_draws 120 35 \<noteq> None \<and>
   length (particles (the (Galaxy_new mid_draws 120 35))) = 360 \<and>
   0 \<le> radius (particles (the (Galaxy_new mid_draws 120 35)) ! 0) \<and>
   angle (particles (the (Galaxy_new mid_draws 120 35)) ! 300) = PI"
proof -
  obtain g where g: "Galaxy_new mid_draws 120 35 = Some g"
    by (simp add: Galaxy_new_closed)
  have "angle (particles g ! 300) = PI"
    using Galaxy_new_nth(3) [OF g, of 300]
    by (simp add: core_particle_fields mid_draws_def TWO_PI_twice)
  then show ?thesis
    using created_particles_bounds [OF valid_mid_draws g] valid_mid_draws g by simp
qed

text \<open>
  The claim as stated fails: with every draw at the middle of its range, the last particle
  of the second arm is created with the angle \<open>209/60 * PI\<close>, which is not below \<open>TWO_PI\<close>.
\<close>

theorem created_angle_counterexample:
  "valid_draws mid_draws \<and> Galaxy_new mid_draws 120 35 \<noteq> None \<and>
   angle (particles (the (Galaxy_new mid_draws 120 35)) ! 299) = 209 / 60 * PI \<and>
   \<not> angle (particles (the (Galaxy_new mid_draws 120 35)) ! 299) < TWO_PI"
proof -
  obtain g where g: "Galaxy_new mid_draws 120 35 = Some g"
    by (simp add: Galaxy_new_closed)
  have "angle (particles g ! 299) = 209 / 60 * PI"
    using Galaxy_new_nth(2) [OF g, of 299]
    by (simp add: arm_particle_fields mid_draws_def)
  then show ?thesis
    using valid_mid_draws g by (simp add: TWO_PI_eq PI_eq)
qed

subsection \<open>Advancing the simulation\<close>

lemma Particle_update_frame [simp]:
  "angular_velocity (Particle_update dt p) = angular_velocity p"
  "radius (Particle_update dt p) = radius p"
  "brightness (Particle_update dt p) = brightness p"
  by (simp_all add: Particle_update_def Let_def)

lemma Star_update_frame [simp]:
  "speed (Star_update dt s) = speed s"
  "base_brightness (Star_update dt s) = base_brightness s"
  "pos (Star_update dt s) = pos s"
  by (simp_all add: Star_update_def Let_def)

lemma Particle_update_wrapped:
  assumes "- TWO_PI \<le> angle p + angular_velocity p * dt"
    and "angle p + angular_velocity p * dt \<le> 2 * TWO_PI"
  shows "0 \<le> angle (Particle_update dt p)" and "angle (Particle_update dt p) \<le> TWO_PI"
  using assms TWO_PI_pos by (auto simp: Particle_update_def Let_def)

lemma Star_update_wrapped:
  assumes "0 \<le> phase s + speed s * dt"
    and "phase s + speed s * dt \<le> 2 * TWO_PI"
  shows "0 \<le> phase (Star_update dt s)" and "phase (Star_update dt s) \<le> TWO_PI"
  using assms TWO_PI_pos by (auto simp: Star_update_def Let_def)

text \<open>On a non-negative advanced phase the star follows the rule of the particle.\<close>

lemma Star_update_as_Particle_update:
  assumes "0 \<le> phase s + speed s * dt"
  shows "phase (Star_update dt s) =
         angle (Particle_update dt (Particle_new r (phase s) (speed s) b))"
  using assms TWO_PI_pos
  by (auto simp: Star_update_def Particle_update_def Particle_new_def Let_def)

lemma launched_update:
  assumes "launched p"
  shows "0 \<le> angle (Particle_update frame_dt p)"
    and "angle (Particle_update frame_dt p) \<le> TWO_PI"
    and "launched (Particle_update frame_dt p)"
proof -
  have v: "0 \<le> angular_velocity p * frame_dt" "angular_velocity p * frame_dt \<le> 4 / 100"
    using assms by (simp_all add: launched_def frame_dt_eq)
  have lo: "- TWO_PI \<le> angle p + angular_velocity p * frame_dt"
    using assms v TWO_PI_gt_6 unfolding launched_def by linarith
  have hi: "angle p + angular_velocity p * frame_dt \<le> 2 * TWO_PI"
    using assms v by (simp add: launched_def TWO_PI_eq PI_eq)
  show a: "0 \<le> angle (Particle_update frame_dt p)" "angle (Particle_update frame_dt p) \<le> TWO_PI"
    using Particle_update_wrapped [OF lo hi] by simp_all
  have "TWO_PI \<le> 7 / 2 * PI + 1 / 5"
    by (simp add: TWO_PI_eq PI_eq)
  with a assms show "launched (Particle_update frame_dt p)"
    by (simp add: launched_def)
qed

lemma twinkling_update:
  assumes "twinkling s"
  shows "twinkling (Star_update frame_dt s)"
    and "0 \<le> phase s + speed s * frame_dt"
proof -
  have v: "0 \<le> speed s * frame_dt" "speed s * frame_dt \<le> 1 / 4"
    using assms by (simp_all add: twinkling_def frame_dt_eq)
  show lo: "0 \<le> phase s + speed s * frame_dt"
    using assms v by (simp add: twinkling_def)
  have hi: "phase s + speed s * frame_dt \<le> 2 * TWO_PI"
    using assms v TWO_PI_gt_6 by (simp add: twinkling_def)
  show "twinkling (Star_update frame_dt s)"
    using Star_update_wrapped [OF lo hi] assms by (simp add: twinkling_def)
qed

lemma run_frames_Suc: "run_frames (Suc n) g = Galaxy_update frame_dt (run_frames n g)"
  by (simp add: run_frames_def)

lemma run_frames_0 [simp]: "run_frames 0 g = g"
  by (simp add: run_frames_def)

lemma launched_run_frames:
  "\<forall>p\<in>set (particles g). launched p \<Longrightarrow> \<forall>p\<in>set (particles (run_frames n g)). launched p"
  by (induction n) (auto simp: run_frames_Suc Galaxy_update_def launched_update)

lemma twinkling_run_frames:
  "\<forall>s\<in>set (stars g). twinkling s \<Longrightarrow> \<forall>s\<in>set (stars (run_frames n g)). twinkling s"
  by (induction n) (auto simp: run_frames_Suc Galaxy_update_def twinkling_update)

lemma length_run_frames [simp]:
  "length (particles (run_frames n g)) = length (particles g)"
  "length (stars (run_frames n g)) = length (stars g)"
  by (induction n) (simp_all add: run_frames_Suc Galaxy_update_def)

lemma in_arm_listD:
  "p \<in> set (arm_list rng arm i k) \<Longrightarrow>
   \<exists>j k'. j < particles_per_arm \<and> p = fst (arm_particle rng arm j k')"
  by (auto simp: arm_list_def)

lemma in_core_listD:
  "p \<in> set (core_list rng i k) \<Longrightarrow> \<exists>k'. p = fst (core_particle rng k')"
  by (auto simp: core_list_def)

lemma Galaxy_new_launched:
  assumes "valid_draws rng" and "Galaxy_new rng w h = Some g"
  shows "\<forall>p\<in>set (particles g). launched p"
proof
  fix p assume "p \<in> set (particles g)"
  then have "p \<in> set (arm_list rng 0 0 0) \<or> p \<in> set (arm_list rng 1 0 300) \<or>
      p \<in> set (core_list rng 0 600)"
    unfolding Galaxy_new_particles(1) [OF assms(2)] by auto
  moreover have "(0::nat) < num_arms" "(1::nat) < num_arms"
    by (simp_all add: num_arms_def)
  ultimately consider arm j k where "arm < num_arms" "j < particles_per_arm"
      "p = fst (arm_particle rng arm j k)"
    | k where "p = fst (core_particle rng k)"
    by (meson in_arm_listD in_core_listD)
  then show "launched p"
  proof cases
    case 1
    then show ?thesis
      using arm_particle_angle [OF assms(1) 1(2) 1(1), of k]
        arm_particle_velocity [OF assms(1) 1(2), of arm k]
      by (simp add: launched_def)
  next
    case 2
    have "TWO_PI \<le> 7 / 2 * PI + 1 / 5"
      by (simp add: TWO_PI_eq PI_eq)
    then show ?thesis
      using core_particle_bounds [OF assms(1), of k] 2
      by (simp add: launched_def)
  qed
qed

lemma Galaxy_new_twinkling:
  assumes "valid_draws rng" and "Galaxy_new rng w h = Some g"
  shows "\<forall>s\<in>set (stars g). twinkling s"
proof
  fix s assume "s \<in> set (stars g)"
  then obtain k where "s = fst (new_star rng w h k)"
    unfolding Galaxy_new_particles(2) [OF assms(2)] star_list_def by auto
  then show "twinkling s"
    using new_star_bounds [OF assms(1), of w h k] by (simp add: twinkling_def)
qed

lemma TWO_PI_less_turn: "TWO_PI < 2 * pi"
  using PI_less_pi by (simp add: TWO_PI_twice)

lemma nth_run_frames_Suc:
  "i < length (particles g) \<Longrightarrow>
   particles (run_frames (Suc n) g) ! i = Particle_update frame_dt (particles (run_frames n g) ! i)"
  "j < length (stars g) \<Longrightarrow>
   stars (run_frames (Suc n) g) ! j = Star_update frame_dt (stars (run_frames n g) ! j)"
  by (simp_all add: run_frames_Suc Galaxy_update_def)

text \<open>
  Claim C3.  Whatever the generator draws, after every call of \<^verbatim>\<open>update\<close> with the time step
  of \<^verbatim>\<open>main\<close> the angle of each particle and the phase of each star lie between \<open>0\<close> and
  \<open>TWO_PI\<close>, which is below \<open>2\<pi>\<close>, hence in \<open>[0, 2\<pi>)\<close>.  Each call adds the advance
  \<open>angular_velocity * dt\<close> (for a star \<open>speed * dt\<close>) and moves the sum by at most one full
  turn \<open>TWO_PI\<close>: down when the sum exceeds \<open>TWO_PI\<close>, up when it is negative, and not at all
  otherwise.  The phase of a star follows the same rule as the angle of a particle: the
  update of a star lacks the branch for a negative sum, and no star of the program has a
  negative advanced phase.
\<close>

theorem angles_wrapped_after_update:
  assumes "valid_draws rng" and "Galaxy_new rng w h = Some g"
  shows "(\<forall>p\<in>set (particles (run_frames (Suc n) g)).
       0 \<le> angle p \<and> angle p \<le> TWO_PI \<and> angle p < 2 * pi) \<and>
    (\<forall>s\<in>set (stars (run_frames (Suc n) g)).
       0 \<le> phase s \<and> phase s \<le> TWO_PI \<and> phase s < 2 * pi) \<and>
    (\<forall>i<length (particles g).
       particles (run_frames (Suc n) g) ! i =
         (particles (run_frames n g) ! i)\<lparr>angle :=
            (if TWO_PI < angle (particles (run_frames n g) ! i) +
                  angular_velocity (particles (run_frames n g) ! i) * frame_dt
             then angle (particles (run_frames n g) ! i) +
                  angular_velocity (particles (run_frames n g) ! i) * frame_dt - TWO_PI
             else if angle (particles (run_frames n g) ! i) +
                  angular_velocity (particles (run_frames n g) ! i) * frame_dt < 0
             then angle (particles (run_frames n g) ! i) +
                  angular_velocity (particles (run_frames n g) ! i) * frame_dt + TWO_PI
             else angle (particles (run_frames n g) ! i) +
                  angular_velocity (particles (run_frames n g) ! i) * frame_dt)\<rparr>) \<and>
    (\<forall>j<length (stars g).
       stars (run_frames (Suc n) g) ! j =
         (stars (run_frames n g) ! j)\<lparr>phase :=
            (if TWO_PI < phase (stars (run_frames n g) ! j) +
                  speed (stars (run_frames n g) ! j) * frame_dt
             then phase (stars (run_frames n g) ! j) +
                  speed (stars (run_frames n g) ! j) * frame_dt - TWO_PI
             else if phase (stars (run_frames n g) ! j) +
                  speed (stars (run_frames n g) ! j) * frame_dt < 0
             then phase (stars (run_frames n g) ! j) +
                  speed (stars (run_frames n g) ! j) * frame_dt + TWO_PI
             else phase (stars (run_frames n g) ! j) +
                  speed (stars (run_frames n g) ! j) * frame_dt)\<rparr>) \<and>
    (\<forall>s\<in>set (stars (run_frames n g)).
       phase (Star_update frame_dt s) =
       angle (Particle_update frame_dt (Particle_new 0 (phase s) (speed s) 0)))"
proof (intro conjI ballI allI impI)
  have P: "\<forall>p\<in>set (particles (run_frames n g)). launched p"
    by (rule launched_run_frames [OF Galaxy_new_launched [OF assms]])
  have S: "\<forall>s\<in>set (stars (run_frames m g)). twinkling s" for m
    by (rule twinkling_run_frames [OF Galaxy_new_twinkling [OF assms]])
  {
    fix p assume "p \<in> set (particles (run_frames (Suc n) g))"
    then obtain q where "q \<in> set (particles (run_frames n g))" "p = Particle_update frame_dt q"
      by (auto simp: run_frames_Suc Galaxy_update_def)
    with P show "0 \<le> angle p" and a: "angle p \<le> TWO_PI"
      by (simp_all add: launched_update)
    from a TWO_PI_less_turn show "angle p < 2 * pi"
      by simp
  }
  {
    fix s assume "s \<in> set (stars (run_frames (Suc n) g))"
    with S [of "Suc n"] show "0 \<le> phase s" and f: "phase s \<le> TWO_PI"
      by (simp_all add: twinkling_def)
    from f TWO_PI_less_turn show "phase s < 2 * pi"
      by simp
  }
  {
    fix i assume "i < length (particles g)"
    then show "particles (run_frames (Suc n) g) ! i =
         (particles (run_frames n g) ! i)\<lparr>angle :=
            (if TWO_PI < angle (particles (run_frames n g) ! i) +
                  angular_velocity (particles (run_frames n g) ! i) * frame_dt
             then angle (particles (run_frames n g) ! i) +
                  angular_velocity (particles (run_frames n g) ! i) * frame_dt - TWO_PI
             else if angle (particles (run_frames n g) ! i) +
                  angular_velocity (particles (run_frames n g) ! i) * frame_dt < 0
             then angle (particles (run_frames n g) ! i) +
                  angular_velocity (particles (run_frames n g) ! i) * frame_dt + TWO_PI
             else angle (particles (run_frames n g) ! i) +
                  angular_velocity (particles (run_frames n g) ! i) * frame_dt)\<rparr>"
      using TWO_PI_pos by (simp add: nth_run_frames_Suc(1) Particle_update_def Let_def)
  }
  {
    fix j assume j: "j < length (stars g)"
    then have "stars (run_frames n g) ! j \<in> set (stars (run_frames n g))"
      by simp
    with S [of n] have "0 \<le> phase (stars (run_frames n g) ! j) +
        speed (stars (run_frames n g) ! j) * frame_dt"
      by (simp add: twinkling_update)
    then show "stars (run_frames (Suc n) g) ! j =
         (stars (run_frames n g) ! j)\<lparr>phase :=
            (if TWO_PI < phase (stars (run_frames n g) ! j) +
                  speed (stars (run_frames n g) ! j) * frame_dt
             then phase (stars (run_frames n g) ! j) +
                  speed (stars (run_frames n g) ! j) * frame_dt - TWO_PI
             else if phase (stars (run_frames n g) ! j) +
                  speed (stars (run_frames n g) ! j) * frame_dt < 0
             then phase (stars (run_frames n g) ! j) +
                  speed (stars (run_frames n g) ! j) * frame_dt + TWO_PI
             else phase (stars (run_frames n g) ! j) +
                  speed (stars (run_frames n g) ! j) * frame_dt)\<rparr>"
      using j by (simp add: nth_run_frames_Suc(2) Star_update_def Let_def)
  }
  {
    fix s assume "s \<in> set (stars (run_frames n g))"
    with S [of n] have "0 \<le> phase s + speed s * frame_dt"
      by (simp add: twinkling_update)
    then show "phase (Star_update frame_dt s) =
       angle (Particle_update frame_dt (Particle_new 0 (phase s) (speed s) 0))"
      by (rule Star_update_as_Particle_update)
  }
qed

text \<open>
  With every draw at the middle of its range, the last particle of the second arm starts
  at the angle \<open>209/60 * PI\<close> and is taken down by one full turn in the first update.
\<close>

theorem angles_wrapped_after_update_witness:
  "valid_draws mid_draws \<and> Galaxy_new mid_draws 120 35 \<noteq> None \<and>
   angle (particles (the (Galaxy_new mid_draws 120 35)) ! 299) = 209 / 60 * PI \<and>
   angle (particles (run_frames (Suc 0) (the (Galaxy_new mid_draws 120 35))) ! 299) =
     209 / 60 * PI +
     angular_velocity (particles (the (Galaxy_new mid_draws 120 35)) ! 299) * frame_dt - TWO_PI \<and>
   angle (particles (run_frames (Suc 0) (the (Galaxy_new mid_draws 120 35))) ! 299) < 2 * pi \<and>
   0 \<le> phase (stars (run_frames (Suc 0) (the (Galaxy_new mid_draws 120 35))) ! 0)"
proof -
  obtain g where g: "Galaxy_new mid_draws 120 35 = Some g"
    by (simp add: Galaxy_new_closed)
  have len: "299 < length (particles g)"
    using Galaxy_new_nth(4) [OF g] by simp
  have a: "angle (particles g ! 299) = 209 / 60 * PI"
    using Galaxy_new_nth(2) [OF g, of 299]
    by (simp add: arm_particle_fields mid_draws_def)
  have "particles g ! 299 \<in> set (particles g)"
    using len by simp
  then have "launched (particles g ! 299)"
    using Galaxy_new_launched [OF valid_mid_draws g] by blast
  then have v: "0 \<le> angular_velocity (particles g ! 299) * frame_dt"
    by (simp add: launched_def frame_dt_eq)
  have big: "TWO_PI < 209 / 60 * PI + angular_velocity (particles g ! 299) * frame_dt"
    using v PI_pos by (simp add: TWO_PI_twice)
  have mem: "particles (run_frames (Suc 0) g) ! 299 \<in> set (particles (run_frames (Suc 0) g))"
    "stars (run_frames (Suc 0) g) ! 0 \<in> set (stars (run_frames (Suc 0) g))"
    using Galaxy_new_nth(4,6) [OF g] by (simp_all del: run_frames_Suc)
  note wrapped = angles_wrapped_after_update [OF valid_mid_draws g, of 0]
  from wrapped len have "particles (run_frames (Suc 0) g) ! 299 =
      (particles g ! 299)\<lparr>angle :=
         209 / 60 * PI + angular_velocity (particles g ! 299) * frame_dt - TWO_PI\<rparr>"
    using big by (simp add: a)
  then have "angle (particles (run_frames (Suc 0) g) ! 299) =
      209 / 60 * PI + angular_velocity (particles g ! 299) * frame_dt - TWO_PI"
    by simp
  moreover from wrapped mem have "angle (particles (run_frames (Suc 0) g) ! 299) < 2 * pi"
    "0 \<le> phase (stars (run_frames (Suc 0) g) ! 0)"
    by blast+
  ultimately show ?thesis
    using valid_mid_draws g a by simp
qed

text \<open>
  The branch that the update of a star lacks: a phase that is negative after the advance
  is left negative.  No state of the program has such a star.
\<close>

lemma Star_update_negative:
  "phase (Star_update frame_dt \<lparr>pos = \<lparr>x = 0, y = 0\<rparr>, phase = - 1, speed = 0, base_brightness = 1\<rparr>) = - 1"
  using TWO_PI_pos by (simp add: Star_update_def)

subsection \<open>The intensity-to-glyph pass\<close>

lemma static_cast_int_nonneg:
  assumes "0 \<le> v" and "v < 2 ^ 31"
  shows "static_cast_int v = Some \<lfloor>v\<rfloor>"
proof -
  have "\<lfloor>v\<rfloor> < 2 ^ 31"
    using assms(2) by (simp add: floor_less_iff)
  moreover have "0 \<le> \<lfloor>v\<rfloor>"
    using assms(1) by simp
  ultimately show ?thesis
    using assms(1) by (simp add: static_cast_int_def Let_def)
qed

lemma static_cast_int_SomeD:
  assumes "static_cast_int v = Some k"
  shows "k = (if v < 0 then \<lceil>v\<rceil> else \<lfloor>v\<rfloor>)" and "- (2 ^ 31) \<le> k" and "k < 2 ^ 31"
  using assms by (auto simp: static_cast_int_def Let_def split: if_splits)

lemma clamp_mono: "a \<le> b \<Longrightarrow> lo \<le> hi \<Longrightarrow> clamp a lo hi \<le> clamp b lo hi"
  by (simp add: clamp_def)

lemma clamp_range: "lo \<le> hi \<Longrightarrow> lo \<le> clamp a lo hi \<and> clamp a lo hi \<le> hi"
  by (simp add: clamp_def)

lemma length_GRADIENT [simp]: "length GRADIENT = 10"
  by (simp add: GRADIENT_def)

lemma glyph_index_nonneg:
  assumes "0 \<le> v" and "double_mul v 3 < 2 ^ 31"
  shows "glyph_index v = Some (clamp \<lfloor>double_mul v 3\<rfloor> 0 9)"
  using assms double_mul_nonneg [of v] by (simp add: glyph_index_def static_cast_int_nonneg)

lemma glyph_index_eq:
  assumes "double_mul v 3 = d" and "0 \<le> d" and "d < 2 ^ 31"
  shows "glyph_index v = Some (clamp \<lfloor>d\<rfloor> 0 9)"
  using assms by (simp add: glyph_index_def static_cast_int_nonneg)

lemma glyph_index_SomeD:
  assumes "glyph_index v = Some k" and "0 \<le> v"
  shows "k = clamp \<lfloor>double_mul v 3\<rfloor> 0 9" and "double_mul v 3 < 2 ^ 31"
proof -
  from assms(1) obtain idx where idx: "static_cast_int (double_mul v 3) = Some idx"
    "k = clamp idx 0 9"
    by (auto simp: glyph_index_def bind_eq_Some_conv)
  have nn: "\<not> double_mul v 3 < 0"
    using double_mul_nonneg [OF assms(2)] by simp
  from static_cast_int_SomeD(1) [OF idx(1)] nn idx(2) show "k = clamp \<lfloor>double_mul v 3\<rfloor> 0 9"
    by simp
  from static_cast_int_SomeD(1,3) [OF idx(1)] nn have "\<lfloor>double_mul v 3\<rfloor> < 2 ^ 31"
    by simp
  then show "double_mul v 3 < 2 ^ 31"
    by (simp add: floor_less_iff)
qed

text \<open>
  The product of doubles can reach \<open>2 ^ 31\<close> while the exact product is still below it:
  three times \<open>6004799503160661 / 2 ^ 23\<close> is \<open>2 ^ 31 - 2 ^ -23\<close>, which rounds to
  \<open>2 ^ 31\<close>, and the conversion to \<^verbatim>\<open>int\<close> is undefined there.
\<close>

lemma glyph_index_overflow:
  "(6004799503160661 / 2 ^ 23 :: real) * 3 < 2 ^ 31"
  "double_mul (6004799503160661 / 2 ^ 23) 3 = 2 ^ 31"
  "glyph_index (6004799503160661 / 2 ^ 23) = None"
proof -
  show "(6004799503160661 / 2 ^ 23 :: real) * 3 < 2 ^ 31"
    by simp
  show m: "double_mul (6004799503160661 / 2 ^ 23) 3 = 2 ^ 31"
    by (simp add: round_double_eval)
  have "glyph_index v = None" if "double_mul v 3 = 2 ^ 31" for v
    using that by (simp add: glyph_index_def static_cast_int_def)
  then show "glyph_index (6004799503160661 / 2 ^ 23) = None"
    using m by blast
qed

text \<open>
  Claim C9.  The index into the ramp is monotone in the intensity: for intensities above
  the threshold \<open>0.1\<close> with \<open>i1 \<le> i2\<close>, the index chosen for \<open>i1\<close> is at most the index
  chosen for \<open>i2\<close>.  Both indices exist whenever the product \<open>i2 * 3.0\<close> that the program
  computes is below \<open>2 ^ 31\<close>, the range in which the conversion to \<^verbatim>\<open>int\<close> is defined; that
  holds whenever the exact product is at most \<open>2 ^ 31 - 1\<close>.
\<close>

theorem glyph_index_monotone:
  assumes "1 / 10 < i1" and "i1 \<le> i2"
  shows "(\<forall>k1 k2. glyph_index i1 = Some k1 \<and> glyph_index i2 = Some k2 \<longrightarrow> k1 \<le> k2) \<and>
         (double_mul i2 3 < 2 ^ 31 \<longrightarrow> glyph_index i1 \<noteq> None \<and> glyph_index i2 \<noteq> None) \<and>
         (i2 * 3 \<le> 2 ^ 31 - 1 \<longrightarrow> glyph_index i1 \<noteq> None \<and> glyph_index i2 \<noteq> None)"
proof -
  have pos: "0 < i1" "0 \<le> i1" "0 \<le> i2"
    using assms by simp_all
  have mono: "double_mul i1 3 \<le> double_mul i2 3"
    using pos(1) assms(2) by (rule double_mul_3_mono)
  have 1: "k1 \<le> k2" if "glyph_index i1 = Some k1 \<and> glyph_index i2 = Some k2" for k1 k2
  proof -
    have "k1 = clamp \<lfloor>double_mul i1 3\<rfloor> 0 9" "k2 = clamp \<lfloor>double_mul i2 3\<rfloor> 0 9"
      using that pos by (simp_all add: glyph_index_SomeD(1))
    moreover have "\<lfloor>double_mul i1 3\<rfloor> \<le> \<lfloor>double_mul i2 3\<rfloor>"
      using mono by (rule floor_mono)
    ultimately show ?thesis
      by (simp add: clamp_mono)
  qed
  have 2: "glyph_index i1 \<noteq> None \<and> glyph_index i2 \<noteq> None" if "double_mul i2 3 < 2 ^ 31"
  proof -
    have "double_mul i1 3 < 2 ^ 31"
      using mono that by simp
    then show ?thesis
      using that pos by (simp add: glyph_index_nonneg)
  qed
  have 3: "glyph_index i1 \<noteq> None \<and> glyph_index i2 \<noteq> None" if "i2 * 3 \<le> 2 ^ 31 - 1"
  proof -
    have "0 < i2 * 3"
      using pos(1) assms(2) by simp
    then have "round_double (i2 * 3) \<le> round_double (2 ^ 31 - 1)"
      using that by (intro round_double_mono) simp_all
    then have "double_mul i2 3 \<le> 2 ^ 31 - 1"
      by (simp only: double_mul_def round_double_fixed)
    then have "double_mul i2 3 < 2 ^ 31"
      by simp
    then show ?thesis
      by (rule 2)
  qed
  from 1 2 3 show ?thesis
    by blast
qed

theorem glyph_index_monotone_witness:
  "(1 / 10 :: real) < 1 / 2 \<and> (1 / 2 :: real) \<le> 2 \<and> (2 :: real) * 3 \<le> 2 ^ 31 - 1 \<and>
   glyph_index (1 / 2) = Some 1 \<and> glyph_index 2 = Some 6 \<and> (1 :: int) \<le> 6"
proof -
  have a: "(1 / 10 :: real) < 1 / 2" and b: "(1 / 2 :: real) \<le> 2" by simp_all
  have m: "double_mul (1 / 2) 3 = 3 / 2" "double_mul 2 3 = 6"
    by (simp_all add: round_double_eval)
  have v: "glyph_index (1 / 2) = Some 1" "glyph_index 2 = Some 6"
    using glyph_index_eq [OF m(1)] glyph_index_eq [OF m(2)] by (simp_all add: clamp_def)
  show ?thesis
    using glyph_index_monotone [OF a b] v by simp
qed

lemma well_sized_replicate [simp]: "well_sized h w (replicate h (replicate w v))"
  by (simp add: well_sized_def)

lemma length_set_cell [simp]: "length (set_cell grid r c v) = length grid"
  by (simp add: set_cell_def)

lemma length_nth_set_cell [simp]:
  "length (set_cell grid r c v ! r') = length (grid ! r')"
proof (cases "r' = r \<and> r < length grid")
  case True
  then show ?thesis by (simp add: set_cell_def)
next
  case False
  then have "r' \<noteq> r \<or> length grid \<le> r" by auto
  then show ?thesis
  proof
    assume "r' \<noteq> r"
    then show ?thesis by (simp add: set_cell_def)
  next
    assume "length grid \<le> r"
    then show ?thesis by (simp add: set_cell_def list_update_beyond)
  qed
qed

lemma well_sized_set_cell [simp]:
  "well_sized h w (set_cell grid r c v) = well_sized h w grid"
  by (simp add: well_sized_def)

lemma nth_set_cell:
  assumes "well_sized h w grid" and "r < h" and "c < w"
  shows "set_cell grid r c v ! r' ! c' = (if r' = r \<and> c' = c then v else grid ! r' ! c')"
  using assms by (auto simp: set_cell_def well_sized_def nth_list_update)

text \<open>The inner loop of \<open>apply_intensity\<close>: row \<open>r\<close> from column \<open>col\<close> on.\<close>

lemma apply_intensity_cols_spec:
  assumes "width g = int w" and "r < h"
    and "\<forall>c<w. round_double (1 / 10) < intensity ! r ! c \<longrightarrow>
           double_mul (intensity ! r ! c) 3 < 2 ^ 31"
  shows "well_sized h w screen \<Longrightarrow> col \<le> w \<Longrightarrow>
    \<exists>screen'. apply_intensity_cols g intensity r col screen = Some screen' \<and>
      well_sized h w screen' \<and>
      (\<forall>r' c. screen' ! r' ! c =
         (if r' = r \<and> col \<le> c \<and> c < w \<and> round_double (1 / 10) < intensity ! r ! c
          then GRADIENT ! nat (clamp \<lfloor>double_mul (intensity ! r ! c) 3\<rfloor> 0 9)
          else screen ! r' ! c))"
proof (induction "w - col" arbitrary: col screen)
  case 0
  then have "col = w" by simp
  then have "apply_intensity_cols g intensity r col screen = Some screen"
    using assms(1) by (subst apply_intensity_cols.simps) simp
  with 0 \<open>col = w\<close> show ?case by auto
next
  case (Suc n)
  then have col: "col < w" by simp
  let ?v = "intensity ! r ! col"
  let ?s1 = "if round_double (1 / 10) < ?v
             then set_cell screen r col (GRADIENT ! nat (clamp \<lfloor>double_mul (?v) 3\<rfloor> 0 9)) else screen"
  have cell: "apply_cell intensity r col screen = Some ?s1"
  proof (cases "round_double (1 / 10) < ?v")
    case True
    then have "glyph_index ?v = Some (clamp \<lfloor>double_mul (?v) 3\<rfloor> 0 9)"
      using assms(3) col tenth_bounds(2) by (intro glyph_index_nonneg) auto
    with True show ?thesis by (simp add: apply_cell_def)
  next
    case False
    then show ?thesis by (simp add: apply_cell_def)
  qed
  have ws1: "well_sized h w ?s1" using Suc.prems(1) by simp
  have "n = w - Suc col" and "Suc col \<le> w" using Suc.hyps(2) by simp_all
  from Suc.hyps(1) [OF this(1) ws1 this(2)]
  obtain screen' where s': "apply_intensity_cols g intensity r (Suc col) ?s1 = Some screen'"
    "well_sized h w screen'"
    "\<forall>r' c. screen' ! r' ! c =
         (if r' = r \<and> Suc col \<le> c \<and> c < w \<and> round_double (1 / 10) < intensity ! r ! c
          then GRADIENT ! nat (clamp \<lfloor>double_mul (intensity ! r ! c) 3\<rfloor> 0 9)
          else ?s1 ! r' ! c)"
    by blast
  have "apply_intensity_cols g intensity r col screen = Some screen'"
    using col assms(1) cell s'(1) by (subst apply_intensity_cols.simps) simp
  moreover have "screen' ! r' ! c =
         (if r' = r \<and> col \<le> c \<and> c < w \<and> round_double (1 / 10) < intensity ! r ! c
          then GRADIENT ! nat (clamp \<lfloor>double_mul (intensity ! r ! c) 3\<rfloor> 0 9)
          else screen ! r' ! c)" for r' c
  proof (cases "r' = r \<and> c = col")
    case True
    then show ?thesis
      using s'(3) [rule_format, of r' c] col
        nth_set_cell [OF Suc.prems(1) assms(2) col, of _ r' c]
      by simp
  next
    case False
    then have "?s1 ! r' ! c = screen ! r' ! c"
      using nth_set_cell [OF Suc.prems(1) assms(2) col, of _ r' c] by auto
    moreover have "r' = r \<Longrightarrow> (Suc col \<le> c) = (col \<le> c)"
      using False by auto
    ultimately show ?thesis
      using s'(3) [rule_format, of r' c] by auto
  qed
  ultimately show ?case using s'(2) by blast
qed

lemma apply_intensity_rows_spec:
  assumes "width g = int w" and "height g = int h"
    and "\<forall>r<h. \<forall>c<w. round_double (1 / 10) < intensity ! r ! c \<longrightarrow>
           double_mul (intensity ! r ! c) 3 < 2 ^ 31"
  shows "well_sized h w screen \<Longrightarrow> row \<le> h \<Longrightarrow>
    \<exists>screen'. apply_intensity_rows g intensity row screen = Some screen' \<and>
      well_sized h w screen' \<and>
      (\<forall>r c. screen' ! r ! c =
         (if row \<le> r \<and> r < h \<and> c < w \<and> round_double (1 / 10) < intensity ! r ! c
          then GRADIENT ! nat (clamp \<lfloor>double_mul (intensity ! r ! c) 3\<rfloor> 0 9)
          else screen ! r ! c))"
proof (induction "h - row" arbitrary: row screen)
  case 0
  then have "row = h" by simp
  then have "apply_intensity_rows g intensity row screen = Some screen"
    using assms(2) by (subst apply_intensity_rows.simps) simp
  with 0 \<open>row = h\<close> show ?case by auto
next
  case (Suc n)
  then have row: "row < h" by simp
  have "\<forall>c<w. round_double (1 / 10) < intensity ! row ! c \<longrightarrow>
           double_mul (intensity ! row ! c) 3 < 2 ^ 31"
    using assms(3) row by simp
  from apply_intensity_cols_spec [OF assms(1) row this Suc.prems(1), of 0]
  obtain s1 where s1: "apply_intensity_cols g intensity row 0 screen = Some s1"
    "well_sized h w s1"
    "\<forall>r' c. s1 ! r' ! c =
         (if r' = row \<and> c < w \<and> round_double (1 / 10) < intensity ! row ! c
          then GRADIENT ! nat (clamp \<lfloor>double_mul (intensity ! row ! c) 3\<rfloor> 0 9)
          else screen ! r' ! c)"
    by (auto simp del: apply_intensity_cols.simps)
  have "n = h - Suc row" and "Suc row \<le> h" using Suc.hyps(2) by simp_all
  from Suc.hyps(1) [OF this(1) s1(2) this(2)]
  obtain screen' where s': "apply_intensity_rows g intensity (Suc row) s1 = Some screen'"
    "well_sized h w screen'"
    "\<forall>r c. screen' ! r ! c =
         (if Suc row \<le> r \<and> r < h \<and> c < w \<and> round_double (1 / 10) < intensity ! r ! c
          then GRADIENT ! nat (clamp \<lfloor>double_mul (intensity ! r ! c) 3\<rfloor> 0 9)
          else s1 ! r ! c)"
    by blast
  have "apply_intensity_rows g intensity row screen = Some screen'"
    using row assms(2) s1(1) s'(1) by (subst apply_intensity_rows.simps) simp
  moreover have "screen' ! r ! c =
         (if row \<le> r \<and> r < h \<and> c < w \<and> round_double (1 / 10) < intensity ! r ! c
          then GRADIENT ! nat (clamp \<lfloor>double_mul (intensity ! r ! c) 3\<rfloor> 0 9)
          else screen ! r ! c)" for r c
  proof (cases "r = row")
    case True
    then show ?thesis
      using s'(3) [rule_format, of r c] s1(3) [rule_format, of r c] row by simp
  next
    case False
    then have "s1 ! r ! c = screen ! r ! c"
      using s1(3) [rule_format, of r c] by simp
    moreover have "(Suc row \<le> r) = (row \<le> r)"
      using False by auto
    ultimately show ?thesis
      using s'(3) [rule_format, of r c] by simp
  qed
  ultimately show ?case using s'(2) by blast
qed

lemma apply_intensity_spec:
  assumes "width g = int w" and "height g = int h"
    and "\<forall>r<h. \<forall>c<w. round_double (1 / 10) < intensity ! r ! c \<longrightarrow>
           double_mul (intensity ! r ! c) 3 < 2 ^ 31"
    and "well_sized h w screen"
  shows "\<exists>screen'. apply_intensity g screen intensity = Some screen' \<and>
      well_sized h w screen' \<and>
      (\<forall>r<h. \<forall>c<w. screen' ! r ! c =
         (if round_double (1 / 10) < intensity ! r ! c
          then GRADIENT ! nat (clamp \<lfloor>double_mul (intensity ! r ! c) 3\<rfloor> 0 9)
          else screen ! r ! c))"
proof -
  from apply_intensity_rows_spec [OF assms(1,2,3,4), of 0]
  obtain screen' where s': "apply_intensity_rows g intensity 0 screen = Some screen'"
    "well_sized h w screen'"
    "\<forall>r c. screen' ! r ! c =
         (if 0 \<le> r \<and> r < h \<and> c < w \<and> round_double (1 / 10) < intensity ! r ! c
          then GRADIENT ! nat (clamp \<lfloor>double_mul (intensity ! r ! c) 3\<rfloor> 0 9)
          else screen ! r ! c)"
    by blast
  show ?thesis
    unfolding apply_intensity_def using s'(1,2) s'(3) by simp
qed

lemma lone_particle_intensity:
  "accumulate_particles (+) lone_particle_galaxy (replicate 6 (replicate 10 0)) =
     Some (set_cell (replicate 6 (replicate 10 0)) 3 7 1)"
  by (simp add: accumulate_particles_def lone_particle_galaxy_def accumulate_particle_def
      get_position_def Particle_new_def static_cast_int_def)

text \<open>The doubles denoted by the thresholds of the star pass.\<close>

lemma star_thresholds:
  "round_double (7 / 10) = 3152519739159347 / 2 ^ 52"
  "round_double (2 / 5) = 3602879701896397 / 2 ^ 53"
  "round_double (1 / 5) = 3602879701896397 / 2 ^ 54"
  by (simp_all add: round_double_eval)

lemma faint_galaxy_passes:
  "render_stars faint_galaxy ['' ''] = Some [''+'']"
  "accumulate_particles (+) faint_galaxy [[0]] = Some [[1 / 5]]"
  by (simp_all add: render_stars_def faint_galaxy_def render_star_def get_brightness_def
      accumulate_particles_def accumulate_particle_def get_position_def Particle_new_def
      static_cast_int_def set_cell_def star_thresholds)

text \<open>
  The pass on a grid of one cell, at the two doubles where rounding decides: a cell that
  holds the double \<^verbatim>\<open>0.1\<close> is not above the threshold and keeps its glyph; the product of
  the greatest double below one third with \<open>3.0\<close> rounds to \<open>1.0\<close>, so that cell gets index
  \<open>1\<close>.
\<close>

lemma one_cell_pass:
  "apply_intensity faint_galaxy [[glyph]] [[v]] =
     (if round_double (1 / 10) < v
      then map_option (\<lambda>k. [[GRADIENT ! nat k]]) (glyph_index v)
      else Some [[glyph]])"
  by (cases "glyph_index v")
    (simp_all add: apply_intensity_def faint_galaxy_def apply_intensity_rows.simps
      apply_intensity_cols.simps apply_cell_def set_cell_def)

lemma apply_intensity_at_threshold:
  "apply_intensity faint_galaxy [''*''] [[round_double (1 / 10)]] = Some [''*'']"
  by (simp add: one_cell_pass)

lemma apply_intensity_below_third:
  "(6004799503160661 / 2 ^ 54 :: real) * 3 < 1"
  "round_double (6004799503160661 / 2 ^ 54) = 6004799503160661 / 2 ^ 54"
  "double_mul (6004799503160661 / 2 ^ 54) 3 = 1"
  "apply_intensity faint_galaxy [''*''] [[6004799503160661 / 2 ^ 54]] = Some [''.'']"
proof -
  show "(6004799503160661 / 2 ^ 54 :: real) * 3 < 1"
    by simp
  show "round_double (6004799503160661 / 2 ^ 54) = 6004799503160661 / 2 ^ 54"
    by (simp add: round_double_eval)
  show m: "double_mul (6004799503160661 / 2 ^ 54) 3 = 1"
    by (simp add: round_double_eval)
  have "round_double (1 / 10) < 6004799503160661 / 2 ^ 54"
    by (simp add: double_of_tenth)
  moreover have "glyph_index (6004799503160661 / 2 ^ 54) = Some 1"
    using glyph_index_eq [OF m] by (simp add: clamp_def)
  ultimately show "apply_intensity faint_galaxy [''*''] [[6004799503160661 / 2 ^ 54]] = Some [''.'']"
    unfolding one_cell_pass by (simp add: GRADIENT_def)
qed

text \<open>
  Claim C1, as amended.  For every cell whose accumulated intensity \<open>i\<close> exceeds the double
  \<^verbatim>\<open>0.1\<close>, the pass writes the character of the ramp at index \<open>clamp(\<lfloor>i * 3.0\<rfloor>, 0, 9)\<close>,
  where \<open>i * 3.0\<close> is the product of doubles: the conversion to \<^verbatim>\<open>int\<close> truncates the product,
  it does not round it to the nearest integer.  A cell at or below the threshold is left
  as it was.  A cell of intensity \<open>1.0\<close>, such as one that received a single particle of
  brightness \<open>1.0\<close>, gets index \<open>3\<close>, the glyph \<open>-\<close>.
\<close>

theorem apply_intensity_glyph:
  assumes "width g = int w" and "height g = int h" and "well_sized h w screen"
    and "\<forall>r<h. \<forall>c<w. round_double (1 / 10) < intensity ! r ! c \<longrightarrow>
           double_mul (intensity ! r ! c) 3 < 2 ^ 31"
  shows "\<exists>screen'. apply_intensity g screen intensity = Some screen' \<and>
    (\<forall>r<h. \<forall>c<w. round_double (1 / 10) < intensity ! r ! c \<longrightarrow>
       glyph_index (intensity ! r ! c) = Some (clamp \<lfloor>double_mul (intensity ! r ! c) 3\<rfloor> 0 9) \<and>
       screen' ! r ! c = GRADIENT ! nat (clamp \<lfloor>double_mul (intensity ! r ! c) 3\<rfloor> 0 9)) \<and>
    (\<forall>r<h. \<forall>c<w. intensity ! r ! c \<le> round_double (1 / 10) \<longrightarrow>
       screen' ! r ! c = screen ! r ! c) \<and>
    (\<forall>r<h. \<forall>c<w. intensity ! r ! c = 1 \<longrightarrow> screen' ! r ! c = GRADIENT ! 3) \<and>
    GRADIENT ! 3 = CHR ''-''"
proof -
  from apply_intensity_spec [OF assms(1,2,4,3)]
  obtain screen' where s': "apply_intensity g screen intensity = Some screen'"
    "\<forall>r<h. \<forall>c<w. screen' ! r ! c =
         (if round_double (1 / 10) < intensity ! r ! c
          then GRADIENT ! nat (clamp \<lfloor>double_mul (intensity ! r ! c) 3\<rfloor> 0 9)
          else screen ! r ! c)"
    by blast
  have "glyph_index (intensity ! r ! c) = Some (clamp \<lfloor>double_mul (intensity ! r ! c) 3\<rfloor> 0 9)"
    if "r < h" "c < w" "round_double (1 / 10) < intensity ! r ! c" for r c
    using that assms(4) tenth_bounds(2) by (intro glyph_index_nonneg) auto
  moreover have "screen' ! r ! c = GRADIENT ! 3" if "r < h" "c < w" "intensity ! r ! c = 1" for r c
  proof -
    have "round_double 3 = 3"
      by (simp add: round_double_eval)
    then show ?thesis
      using s'(2) that by (simp add: clamp_def double_mul_def double_of_tenth)
  qed
  moreover have "screen' ! r ! c = screen ! r ! c"
    if "r < h" "c < w" "intensity ! r ! c \<le> round_double (1 / 10)" for r c
    using s'(2) that by (simp add: not_less [symmetric])
  moreover have "GRADIENT ! 3 = CHR ''-''"
    by (simp add: GRADIENT_def)
  ultimately show ?thesis
    using s' by auto
qed

theorem apply_intensity_glyph_witness:
  "accumulate_particles (+) lone_particle_galaxy (replicate 6 (replicate 10 0)) =
     Some (set_cell (replicate 6 (replicate 10 0)) 3 7 1) \<and>
   (\<exists>screen'. apply_intensity lone_particle_galaxy (replicate 6 (replicate 10 CHR '' ''))
        (set_cell (replicate 6 (replicate 10 0)) 3 7 1) = Some screen' \<and>
      screen' ! 3 ! 7 = CHR ''-'' \<and> screen' ! 3 ! 6 = CHR '' '')"
proof -
  let ?I = "set_cell (replicate 6 (replicate 10 (0::real))) 3 7 1"
  let ?blank = "replicate 6 (replicate 10 CHR '' '')"
  have ws: "well_sized 6 10 ?blank"
    by simp
  have cell: "?I ! r ! c = (if r = 3 \<and> c = 7 then 1 else 0)" if "r < 6" "c < 10" for r c
    using that by (simp add: nth_set_cell [of 6 10])
  have "round_double 3 = 3"
    by (simp add: round_double_eval)
  then have small: "\<forall>r<6. \<forall>c<10. round_double (1 / 10) < ?I ! r ! c \<longrightarrow>
      double_mul (?I ! r ! c) 3 < 2 ^ 31"
    by (simp add: cell double_mul_def double_of_tenth)
  have one: "?I ! 3 ! 7 = 1" and zero: "?I ! 3 ! 6 \<le> round_double (1 / 10)"
    by (simp_all add: cell double_of_tenth)
  have wh: "width lone_particle_galaxy = int 10" "height lone_particle_galaxy = int 6"
    by (simp_all add: lone_particle_galaxy_def)
  from apply_intensity_glyph [OF wh ws small]
  obtain screen' where s':
    "apply_intensity lone_particle_galaxy ?blank ?I = Some screen'"
    "\<forall>r<6. \<forall>c<10. ?I ! r ! c \<le> round_double (1 / 10) \<longrightarrow> screen' ! r ! c = ?blank ! r ! c"
    "\<forall>r<6. \<forall>c<10. ?I ! r ! c = 1 \<longrightarrow> screen' ! r ! c = GRADIENT ! 3"
    "GRADIENT ! 3 = CHR ''-''"
    by blast
  from s'(3) one have "screen' ! 3 ! 7 = GRADIENT ! 3"
    by simp
  moreover from s'(2) zero have "screen' ! 3 ! 6 = ?blank ! 3 ! 6"
    by simp
  ultimately show ?thesis
    using s'(1,4) lone_particle_intensity by simp
qed

text \<open>
  The claim as stated, with the product rounded to the nearest integer, fails at intensity
  \<open>0.5\<close>: the pass writes index \<open>1\<close>, the glyph \<open>.\<close>, where rounding \<open>1.5\<close> would select
  index \<open>2\<close>, the glyph \<open>:\<close>.
\<close>

theorem rounded_index_counterexample:
  "apply_intensity faint_galaxy [''*''] [[1 / 2]] = Some [''.''] \<and>
   double_mul (1 / 2) 3 = 3 / 2 \<and>
   glyph_index (1 / 2) = Some 1 \<and>
   clamp (round (1 / 2 * 3 :: real)) 0 9 = 2 \<and>
   GRADIENT ! nat (clamp (round (1 / 2 * 3 :: real)) 0 9) = CHR '':''"
proof -
  have "round (3 / 2 :: real) = 2"
    by (simp add: round_def)
  moreover have m: "double_mul (1 / 2) 3 = 3 / 2"
    by (simp add: round_double_eval)
  moreover have "glyph_index (1 / 2) = Some 1"
    using glyph_index_eq [OF m] by (simp add: clamp_def)
  moreover have "round_double (1 / 10) < 1 / 2"
    by (simp add: double_of_tenth)
  ultimately show ?thesis
    by (simp add: one_cell_pass clamp_def GRADIENT_def)
qed

text \<open>
  Claim C10, as amended.  A cell whose intensity \<open>i\<close> is above the double \<^verbatim>\<open>0.1\<close> and whose
  product \<open>i * 3.0\<close>, a product of doubles, is below \<open>1\<close> gets index \<open>0\<close> of the ramp, the
  space: after the pass the cell is blank, whatever glyph the star pass had drawn there.
  In exact terms the second condition is \<open>i * 3 < 1 - 2 ^ -54\<close>.
\<close>

theorem faint_cell_is_blank:
  assumes "width g = int w" and "height g = int h" and "well_sized h w screen"
    and "\<forall>r<h. \<forall>c<w. round_double (1 / 10) < intensity ! r ! c \<longrightarrow>
           double_mul (intensity ! r ! c) 3 < 2 ^ 31"
    and "r < h" and "c < w"
    and "round_double (1 / 10) < intensity ! r ! c" and "double_mul (intensity ! r ! c) 3 < 1"
  shows "glyph_index (intensity ! r ! c) = Some 0 \<and> GRADIENT ! 0 = CHR '' '' \<and>
    (\<exists>screen'. apply_intensity g screen intensity = Some screen' \<and> screen' ! r ! c = CHR '' '') \<and>
    intensity ! r ! c * 3 < 1 - 1 / 2 ^ 54"
proof -
  have pos: "0 < intensity ! r ! c"
    using assms(7) tenth_bounds(2) by simp
  have nn: "0 \<le> double_mul (intensity ! r ! c) 3"
    using pos by (intro double_mul_nonneg) simp
  have f: "\<lfloor>double_mul (intensity ! r ! c) 3\<rfloor> = 0"
    using assms(8) nn by (simp add: floor_eq_iff)
  have "glyph_index (intensity ! r ! c) = Some (clamp \<lfloor>double_mul (intensity ! r ! c) 3\<rfloor> 0 9)"
    using assms(8) pos by (intro glyph_index_nonneg) simp_all
  then have g0: "glyph_index (intensity ! r ! c) = Some 0"
    by (simp add: f clamp_def)
  have G0: "GRADIENT ! 0 = CHR '' ''"
    by (simp add: GRADIENT_def)
  from apply_intensity_spec [OF assms(1,2,4,3)]
  obtain screen' where s': "apply_intensity g screen intensity = Some screen'"
    "\<forall>r<h. \<forall>c<w. screen' ! r ! c =
         (if round_double (1 / 10) < intensity ! r ! c
          then GRADIENT ! nat (clamp \<lfloor>double_mul (intensity ! r ! c) 3\<rfloor> 0 9)
          else screen ! r ! c)"
    by blast
  have "screen' ! r ! c = CHR '' ''"
    using s'(2) assms(5,6,7) by (simp add: f clamp_def G0)
  moreover have "intensity ! r ! c * 3 < 1 - 1 / 2 ^ 54"
    using assms(8) double_mul_3_less_1_iff [OF pos] by simp
  ultimately show ?thesis
    using s'(1) g0 G0 by blast
qed

theorem faint_cell_is_blank_witness:
  "render_stars faint_galaxy ['' ''] = Some [''+''] \<and>
   accumulate_particles (+) faint_galaxy [[0]] = Some [[1 / 5]] \<and>
   round_double (1 / 10) < 1 / 5 \<and> double_mul (1 / 5) 3 < 1 \<and>
   apply_intensity faint_galaxy [''+''] [[1 / 5]] = Some ['' '']"
proof -
  have ws: "well_sized 1 1 [''+'']"
    by (simp add: well_sized_def)
  have t: "round_double (1 / 10) < 1 / 5"
    by (simp add: double_of_tenth)
  have m: "double_mul (1 / 5) 3 < 1"
    using double_mul_3_less_1_iff [of "1 / 5"] by simp
  have small: "\<forall>r<1. \<forall>c<1. round_double (1 / 10) < [[1 / 5 :: real]] ! r ! c \<longrightarrow>
      double_mul ([[1 / 5]] ! r ! c) 3 < 2 ^ 31"
    using m by simp
  have wh: "width faint_galaxy = int 1" "height faint_galaxy = int 1"
    by (simp_all add: faint_galaxy_def)
  from faint_cell_is_blank [of faint_galaxy 1 1 "[''+'']" "[[1 / 5]]" 0 0, OF wh ws small]
  obtain screen' where s': "apply_intensity faint_galaxy [''+''] [[1 / 5]] = Some screen'"
    "screen' ! 0 ! 0 = CHR '' ''"
    using t m by auto
  from apply_intensity_spec [OF wh small ws] s'(1)
  have "well_sized 1 1 screen'"
    by auto
  then have "screen' = [[screen' ! 0 ! 0]]"
    by (auto simp: well_sized_def length_Suc_conv)
  with s' show ?thesis
    using t m by (simp add: faint_galaxy_passes)
qed

text \<open>
  The claim as stated, with the exact product, fails at the greatest double below one
  third: it is above one tenth and three times it is below \<open>1\<close>, but the product of
  doubles is \<open>1.0\<close>, so the pass writes index \<open>1\<close>, the glyph \<open>.\<close>, and the cell is not
  blank.
\<close>

theorem faint_boundary_counterexample:
  "(1 / 10 :: real) < 6004799503160661 / 2 ^ 54 \<and>
   (6004799503160661 / 2 ^ 54 :: real) * 3 < 1 \<and>
   round_double (6004799503160661 / 2 ^ 54) = 6004799503160661 / 2 ^ 54 \<and>
   double_mul (6004799503160661 / 2 ^ 54) 3 = 1 \<and>
   apply_intensity faint_galaxy [''*''] [[6004799503160661 / 2 ^ 54]] = Some [''.''] \<and>
   ''.'' \<noteq> '' ''"
proof -
  have "(1 / 10 :: real) < 6004799503160661 / 2 ^ 54"
    by simp
  then show ?thesis
    by (simp only: apply_intensity_below_third) simp
qed

subsection \<open>The core overlay\<close>

text \<open>
  Claim C2, as amended.  The core overlay is drawn under one guard: when the centre column
  \<open>cx\<close> satisfies \<open>0 < cx < width - 1\<close> and the centre row \<open>cy\<close> satisfies
  \<open>0 \<le> cy < height\<close>, the three cells left of, at and right of the centre become \<open>(\<close>,
  \<open>@\<close> and \<open>)\<close> whatever they held, and no other cell changes; otherwise nothing is drawn,
  not even the \<open>@\<close>.  With the centre at the midpoint of the grid, as the constructor sets
  it, the guard holds exactly when the grid is at least 3 wide and 1 high.
\<close>

theorem render_core_overlay:
  assumes "well_sized (nat (height g)) (nat (width g)) screen"
    and "static_cast_int (x (center g)) = Some cx"
    and "static_cast_int (y (center g)) = Some cy"
  shows "(0 < cx \<and> cx < width g - 1 \<and> 0 \<le> cy \<and> cy < height g \<longrightarrow>
      (\<exists>screen'. render_core g screen = Some screen' \<and>
         screen' ! nat cy ! nat (cx - 1) = CHR ''('' \<and>
         screen' ! nat cy ! nat cx = CHR ''@'' \<and>
         screen' ! nat cy ! nat (cx + 1) = CHR '')'' \<and>
         (\<forall>r c. \<not> (r = nat cy \<and> (c = nat (cx - 1) \<or> c = nat cx \<or> c = nat (cx + 1))) \<longrightarrow>
                screen' ! r ! c = screen ! r ! c))) \<and>
    (\<not> (0 < cx \<and> cx < width g - 1 \<and> 0 \<le> cy \<and> cy < height g) \<longrightarrow>
      render_core g screen = Some screen) \<and>
    (center g = \<lparr>x = real_of_int (width g) / 2, y = real_of_int (height g) / 2\<rparr> \<longrightarrow>
      (0 < cx \<and> cx < width g - 1 \<and> 0 \<le> cy \<and> cy < height g) = (3 \<le> width g \<and> 1 \<le> height g))"
proof (intro conjI impI)
  assume guard: "0 < cx \<and> cx < width g - 1 \<and> 0 \<le> cy \<and> cy < height g"
  let ?h = "nat (height g)" and ?w = "nat (width g)"
  let ?s1 = "set_cell screen (nat cy) (nat cx) CHR ''@''"
  let ?s2 = "set_cell ?s1 (nat cy) (nat (cx - 1)) CHR ''(''"
  let ?s3 = "set_cell ?s2 (nat cy) (nat (cx + 1)) CHR '')''"
  have r: "nat cy < ?h" and c: "nat cx < ?w" "nat (cx - 1) < ?w" "nat (cx + 1) < ?w"
    using guard by auto
  have d: "nat (cx - 1) \<noteq> nat cx" "nat cx \<noteq> nat (cx + 1)" "nat (cx - 1) \<noteq> nat (cx + 1)"
    using guard by auto
  have ws: "well_sized ?h ?w ?s1" "well_sized ?h ?w ?s2"
    using assms(1) by simp_all
  have cell: "?s3 ! r' ! c' =
      (if r' = nat cy \<and> c' = nat (cx + 1) then CHR '')''
       else if r' = nat cy \<and> c' = nat (cx - 1) then CHR ''(''
       else if r' = nat cy \<and> c' = nat cx then CHR ''@''
       else screen ! r' ! c')" for r' c'
    by (simp add: nth_set_cell [OF ws(2) r c(3)] nth_set_cell [OF ws(1) r c(2)]
        nth_set_cell [OF assms(1) r c(1)])
  have "render_core g screen = Some ?s3"
    using guard by (simp add: render_core_def assms(2,3))
  moreover have "?s3 ! nat cy ! nat (cx - 1) = CHR ''(''" "?s3 ! nat cy ! nat cx = CHR ''@''"
    "?s3 ! nat cy ! nat (cx + 1) = CHR '')''"
    using d by (simp_all add: cell)
  moreover have "\<forall>r c. \<not> (r = nat cy \<and> (c = nat (cx - 1) \<or> c = nat cx \<or> c = nat (cx + 1))) \<longrightarrow>
                ?s3 ! r ! c = screen ! r ! c"
    by (auto simp: cell)
  ultimately show "\<exists>screen'. render_core g screen = Some screen' \<and>
         screen' ! nat cy ! nat (cx - 1) = CHR ''('' \<and>
         screen' ! nat cy ! nat cx = CHR ''@'' \<and>
         screen' ! nat cy ! nat (cx + 1) = CHR '')'' \<and>
         (\<forall>r c. \<not> (r = nat cy \<and> (c = nat (cx - 1) \<or> c = nat cx \<or> c = nat (cx + 1))) \<longrightarrow>
                screen' ! r ! c = screen ! r ! c)"
    by blast
next
  assume "\<not> (0 < cx \<and> cx < width g - 1 \<and> 0 \<le> cy \<and> cy < height g)"
  then show "render_core g screen = Some screen"
    by (auto simp: render_core_def assms(2,3))
next
  assume mid: "center g = \<lparr>x = real_of_int (width g) / 2, y = real_of_int (height g) / 2\<rparr>"
  have cx: "cx = (if width g < 0 then \<lceil>real_of_int (width g) / 2\<rceil> else \<lfloor>real_of_int (width g) / 2\<rfloor>)"
    using static_cast_int_SomeD(1) [OF assms(2)] by (simp add: mid)
  have cy: "cy = (if height g < 0 then \<lceil>real_of_int (height g) / 2\<rceil> else \<lfloor>real_of_int (height g) / 2\<rfloor>)"
    using static_cast_int_SomeD(1) [OF assms(3)] by (simp add: mid)
  have fl: "\<lfloor>real_of_int n / 2\<rfloor> = n div 2" for n
    by (simp add: floor_divide_of_int_eq [of n 2, simplified])
  have ce: "\<lceil>real_of_int n / 2\<rceil> = - ((- n) div 2)" for n
    using fl [of "- n"] by (simp add: ceiling_def)
  show "(0 < cx \<and> cx < width g - 1 \<and> 0 \<le> cy \<and> cy < height g) = (3 \<le> width g \<and> 1 \<le> height g)"
    unfolding cx cy fl ce by (auto; presburger)
qed

theorem render_core_overlay_witness:
  "render_core lone_particle_galaxy (replicate 6 (replicate 10 CHR ''*'')) =
     Some [''**********'', ''**********'', ''**********'', ''****(@)***'', ''**********'',
           ''**********'']"
proof -
  let ?g = lone_particle_galaxy and ?s = "replicate 6 (replicate 10 CHR ''*'')"
  have ws: "well_sized (nat (height ?g)) (nat (width ?g)) ?s"
    by (simp add: lone_particle_galaxy_def)
  have cx: "static_cast_int (x (center ?g)) = Some 5"
    and cy: "static_cast_int (y (center ?g)) = Some 3"
    by (simp_all add: lone_particle_galaxy_def static_cast_int_def)
  from render_core_overlay [OF ws cx cy]
  obtain screen' where s': "render_core ?g ?s = Some screen'"
    by (auto simp: lone_particle_galaxy_def)
  then show ?thesis
    by (simp add: render_core_def static_cast_int_def lone_particle_galaxy_def set_cell_def
        eval_nat_numeral)
qed

text \<open>
  The claim as stated fails on a grid 2 wide and 1 high: the centre cell (column 1) and the
  cell left of it (column 0) are in bounds, and the pass draws neither \<open>@\<close> nor \<open>(\<close>.
\<close>

theorem core_not_drawn_counterexample:
  "static_cast_int (x (center narrow_galaxy)) = Some 1 \<and>
   static_cast_int (y (center narrow_galaxy)) = Some 0 \<and>
   render_core narrow_galaxy [''*+''] = Some [''*+''] \<and>
   the (render_core narrow_galaxy [''*+'']) ! 0 ! 1 \<noteq> CHR ''@'' \<and>
   the (render_core narrow_galaxy [''*+'']) ! 0 ! 0 \<noteq> CHR ''(''"
  by (simp add: narrow_galaxy_def render_core_def static_cast_int_def)

subsection \<open>The serialized frame\<close>

lemma render_star_well_sized:
  "render_star g s screen = Some screen' \<Longrightarrow> well_sized h w screen \<Longrightarrow> well_sized h w screen'"
  by (auto simp: render_star_def Let_def bind_eq_Some_conv split: if_splits)

lemma render_stars_loop_well_sized:
  "render_stars_loop g ss screen = Some screen' \<Longrightarrow> well_sized h w screen \<Longrightarrow>
   well_sized h w screen'"
proof (induction ss arbitrary: screen)
  case Nil
  then show ?case by simp
next
  case (Cons s ss)
  from Cons.prems(1) obtain s1 where "render_star g s screen = Some s1"
    "render_stars_loop g ss s1 = Some screen'"
    by (auto simp: bind_eq_Some_conv)
  then show ?case
    using Cons.IH [of s1] render_star_well_sized [OF _ Cons.prems(2)] by blast
qed

lemma apply_cell_well_sized:
  "apply_cell intensity r c screen = Some screen' \<Longrightarrow> well_sized h w screen \<Longrightarrow>
   well_sized h w screen'"
  by (auto simp: apply_cell_def bind_eq_Some_conv split: if_splits)

lemma apply_intensity_cols_well_sized:
  "apply_intensity_cols g intensity r col screen = Some screen' \<Longrightarrow> well_sized h w screen \<Longrightarrow>
   well_sized h w screen'"
proof (induction g intensity r col screen arbitrary: screen' rule: apply_intensity_cols.induct)
  case (1 g intensity r col screen)
  show ?case
  proof (cases "int col < width g")
    case True
    with "1.prems"(1) obtain s1 where s1: "apply_cell intensity r col screen = Some s1"
      "apply_intensity_cols g intensity r (Suc col) s1 = Some screen'"
      by (subst (asm) apply_intensity_cols.simps) (auto simp: bind_eq_Some_conv)
    have "well_sized h w s1"
      using apply_cell_well_sized [OF s1(1) "1.prems"(2)] .
    with "1.IH" [OF True _ s1(2)] s1(1) show ?thesis
      by simp
  next
    case False
    with "1.prems" show ?thesis
      by (subst (asm) apply_intensity_cols.simps) simp
  qed
qed

lemma apply_intensity_rows_well_sized:
  "apply_intensity_rows g intensity r screen = Some screen' \<Longrightarrow> well_sized h w screen \<Longrightarrow>
   well_sized h w screen'"
proof (induction g intensity r screen arbitrary: screen' rule: apply_intensity_rows.induct)
  case (1 g intensity r screen)
  show ?case
  proof (cases "int r < height g")
    case True
    with "1.prems"(1) obtain s1 where s1: "apply_intensity_cols g intensity r 0 screen = Some s1"
      "apply_intensity_rows g intensity (Suc r) s1 = Some screen'"
      by (subst (asm) apply_intensity_rows.simps) (auto simp: bind_eq_Some_conv)
    have "well_sized h w s1"
      using apply_intensity_cols_well_sized [OF s1(1) "1.prems"(2)] .
    with "1.IH" [OF True _ s1(2)] s1(1) show ?thesis
      by simp
  next
    case False
    with "1.prems" show ?thesis
      by (subst (asm) apply_intensity_rows.simps) simp
  qed
qed

lemma render_core_well_sized:
  "render_core g screen = Some screen' \<Longrightarrow> well_sized h w screen \<Longrightarrow> well_sized h w screen'"
  by (auto simp: render_core_def bind_eq_Some_conv split: if_splits)

lemma well_sized_eqI:
  assumes "well_sized h w a" and "well_sized h w b"
    and "\<forall>r<h. \<forall>c<w. a ! r ! c = b ! r ! c"
  shows "a = b"
proof (rule nth_equalityI)
  show "length a = length b"
    using assms(1,2) by (simp add: well_sized_def)
next
  fix r assume "r < length a"
  then have r: "r < h" using assms(1) by (simp add: well_sized_def)
  show "a ! r = b ! r"
  proof (rule nth_equalityI)
    show "length (a ! r) = length (b ! r)"
      using assms(1,2) r by (simp add: well_sized_def)
  next
    fix c assume "c < length (a ! r)"
    then have "c < w" using assms(1) r by (simp add: well_sized_def)
    with assms(3) r show "a ! r ! c = b ! r ! c" by simp
  qed
qed

lemma apply_intensity_dark:
  assumes "width g = int w" and "height g = int h" and "well_sized h w screen"
    and "\<forall>r<h. \<forall>c<w. intensity ! r ! c \<le> 1 / 10"
  shows "apply_intensity g screen intensity = Some screen"
proof -
  have dark: "\<not> round_double (1 / 10) < intensity ! r ! c" if "r < h" "c < w" for r c
  proof -
    have "intensity ! r ! c \<le> 1 / 10"
      using assms(4) that by simp
    then show ?thesis
      using tenth_bounds(1) by linarith
  qed
  then have "\<forall>r<h. \<forall>c<w. round_double (1 / 10) < intensity ! r ! c \<longrightarrow>
      double_mul (intensity ! r ! c) 3 < 2 ^ 31"
    by simp
  from apply_intensity_spec [OF assms(1,2) this assms(3)]
  obtain screen' where s': "apply_intensity g screen intensity = Some screen'"
    "well_sized h w screen'"
    "\<forall>r<h. \<forall>c<w. screen' ! r ! c =
         (if round_double (1 / 10) < intensity ! r ! c
          then GRADIENT ! nat (clamp \<lfloor>double_mul (intensity ! r ! c) 3\<rfloor> 0 9)
          else screen ! r ! c)"
    by blast
  have "\<forall>r<h. \<forall>c<w. screen' ! r ! c = screen ! r ! c"
  proof (intro allI impI)
    fix r c assume rc: "r < h" "c < w"
    with s'(3) dark show "screen' ! r ! c = screen ! r ! c" by simp
  qed
  with s'(2) assms(3) have "screen' = screen"
    by (rule well_sized_eqI)
  with s'(1) show ?thesis by simp
qed

lemma show_int_7: "show_int 7 = ''7''"
  by (simp add: show_int_def show_nat.simps)

lemma empty_galaxy_render:
  "render add empty_galaxy (79 / 10) =
     Some (''          \<newline>'' @ ''          \<newline>'' @ ''          \<newline>'' @
           ''    (@)   \<newline>'' @ ''          \<newline>'' @ ''          \<newline>'' @
           ''\<newline> Time: 7s'')"
proof -
  let ?blank = "replicate 6 (replicate 10 CHR '' '')"
  let ?zero = "replicate 6 (replicate 10 (0::real))"
  have wh: "width empty_galaxy = 10" "height empty_galaxy = 6"
    by (simp_all add: empty_galaxy_def)
  have 1: "render_stars empty_galaxy ?blank = Some ?blank"
    by (simp add: render_stars_def empty_galaxy_def)
  have 2: "accumulate_particles add empty_galaxy ?zero = Some ?zero"
    by (simp add: accumulate_particles_def empty_galaxy_def)
  have 3: "apply_intensity empty_galaxy ?blank ?zero = Some ?blank"
    by (rule apply_intensity_dark [of _ 10 6]) (simp_all add: empty_galaxy_def)
  have 4: "render_core empty_galaxy ?blank =
      Some [''          '', ''          '', ''          '', ''    (@)   '', ''          '',
            ''          '']"
    by (simp add: render_core_def static_cast_int_def empty_galaxy_def set_cell_def
        eval_nat_numeral)
  have 5: "static_cast_int (79 / 10) = Some 7"
    by (simp add: static_cast_int_def)
  have 6: "Galaxy_output [''          '', ''          '', ''          '', ''    (@)   '',
      ''          '', ''          ''] (79 / 10) =
     Some (''          \<newline>'' @ ''          \<newline>'' @ ''          \<newline>'' @
           ''    (@)   \<newline>'' @ ''          \<newline>'' @ ''          \<newline>'' @
           ''\<newline> Time: 7s'')"
    by (simp add: Galaxy_output_def 5 show_int_7)
  have "render add empty_galaxy (79 / 10) =
      Galaxy_output [''          '', ''          '', ''          '', ''    (@)   '',
      ''          '', ''          ''] (79 / 10)"
    unfolding render_def wh by (simp add: 1 2 3 4)
  then show ?thesis
    by (simp only: 6)
qed

lemma Galaxy_output_format:
  assumes "Galaxy_output screen t = Some txt"
  shows "txt = concat (map (\<lambda>row. row @ ''\<newline>'') screen) @ ''\<newline> Time: '' @
           show_int (if t < 0 then \<lceil>t\<rceil> else \<lfloor>t\<rfloor>) @ ''s''"
proof -
  from assms obtain secs where secs: "static_cast_int t = Some secs"
    "txt = concat (map (\<lambda>row. row @ ''\<newline>'') screen) @ ''\<newline> Time: '' @ show_int secs @ ''s''"
    by (auto simp: Galaxy_output_def bind_eq_Some_conv)
  with static_cast_int_SomeD(1) [OF secs(1)] show ?thesis by simp
qed

lemma render_passes:
  assumes "render add g t = Some txt"
  obtains s1 i1 s2 s3 where
    "render_stars g (replicate (nat (height g)) (replicate (nat (width g)) CHR '' '')) = Some s1"
    "accumulate_particles add g (replicate (nat (height g)) (replicate (nat (width g)) 0)) = Some i1"
    "apply_intensity g s1 i1 = Some s2"
    "render_core g s2 = Some s3"
    "Galaxy_output s3 t = Some txt"
proof -
  let ?blank = "replicate (nat (height g)) (replicate (nat (width g)) CHR '' '')"
  let ?zero = "replicate (nat (height g)) (replicate (nat (width g)) (0::real))"
  from assms have "\<not> (width g < 0 \<or> height g < 0)"
    by (cases "width g < 0 \<or> height g < 0") (simp_all add: render_def)
  with assms have "render_stars g ?blank \<bind> (\<lambda>s1. accumulate_particles add g ?zero \<bind>
      (\<lambda>i1. apply_intensity g s1 i1 \<bind> (\<lambda>s2. render_core g s2 \<bind>
      (\<lambda>s3. Galaxy_output s3 t)))) = Some txt"
    by (simp add: render_def Let_def)
  then obtain s1 where 1: "render_stars g ?blank = Some s1"
    and "accumulate_particles add g ?zero \<bind>
      (\<lambda>i1. apply_intensity g s1 i1 \<bind> (\<lambda>s2. render_core g s2 \<bind>
      (\<lambda>s3. Galaxy_output s3 t))) = Some txt"
    by (auto simp only: bind_eq_Some_conv)
  then obtain i1 where 2: "accumulate_particles add g ?zero = Some i1"
    and "apply_intensity g s1 i1 \<bind> (\<lambda>s2. render_core g s2 \<bind>
      (\<lambda>s3. Galaxy_output s3 t)) = Some txt"
    by (auto simp only: bind_eq_Some_conv)
  then obtain s2 where 3: "apply_intensity g s1 i1 = Some s2"
    and "render_core g s2 \<bind> (\<lambda>s3. Galaxy_output s3 t) = Some txt"
    by (auto simp only: bind_eq_Some_conv)
  then obtain s3 where 4: "render_core g s2 = Some s3" and 5: "Galaxy_output s3 t = Some txt"
    by (auto simp only: bind_eq_Some_conv)
  from 1 2 3 4 5 show ?thesis by (rule that)
qed

subsection \<open>The accumulation pass\<close>

text \<open>
  The doubles denoted by the literals \<^verbatim>\<open>0.2\<close> and \<^verbatim>\<open>0.3\<close>, and the sums with \<^verbatim>\<open>0.1\<close> in the two
  orders: \<open>(0.1 + 0.2) + 0.3\<close> is \<open>0.6000000000000001\<close>, \<open>(0.3 + 0.2) + 0.1\<close> is
  \<open>0.6\<close> (that is \<open>0.59999999999999998\<close>).
\<close>

lemma double_of_fifth: "round_double (2 / 10) = 3602879701896397 / 2 ^ 54"
  by (simp add: round_double_eval)

lemma double_of_three_tenths: "round_double (3 / 10) = 5404319552844595 / 2 ^ 54"
  by (simp add: round_double_eval)

lemma double_add_ascending:
  "double_add 0 (3602879701896397 / 2 ^ 55) = 3602879701896397 / 2 ^ 55"
  "double_add (3602879701896397 / 2 ^ 55) (3602879701896397 / 2 ^ 54) = 5404319552844596 / 2 ^ 54"
  "double_add (5404319552844596 / 2 ^ 54) (5404319552844595 / 2 ^ 54) = 5404319552844596 / 2 ^ 53"
  by (simp_all add: round_double_eval)

lemma double_add_descending:
  "double_add 0 (5404319552844595 / 2 ^ 54) = 5404319552844595 / 2 ^ 54"
  "double_add (5404319552844595 / 2 ^ 54) (3602879701896397 / 2 ^ 54) = 1 / 2"
  "double_add (1 / 2) (3602879701896397 / 2 ^ 55) = 5404319552844595 / 2 ^ 53"
  by (simp_all add: round_double_eval)

lemma accumulate_particle_well_sized:
  "accumulate_particle add g p I = Some I' \<Longrightarrow> well_sized h w I \<Longrightarrow> well_sized h w I'"
  by (auto simp: accumulate_particle_def Let_def bind_eq_Some_conv split: if_splits)

text \<open>
  What one particle does to the intensity grid does not depend on the grid: the step is
  undefined (a conversion out of range), or leaves the grid alone (the particle is off
  screen), or adds the brightness to one cell of the grid.
\<close>

lemma accumulate_particle_cases:
  "(\<forall>I. accumulate_particle add g p I = None) \<or>
   (\<forall>I. accumulate_particle add g p I = Some I) \<or>
   (\<exists>r c. r < nat (height g) \<and> c < nat (width g) \<and>
      (\<forall>I. accumulate_particle add g p I =
            Some (set_cell I r c (add (I ! r ! c) (brightness p)))))"
proof -
  let ?q = "get_position p (center g) (aspect_ratio g)"
  show ?thesis
  proof (cases "static_cast_int (x ?q)")
    case None
    then show ?thesis by (simp add: accumulate_particle_def)
  next
    case px: (Some px)
    show ?thesis
    proof (cases "static_cast_int (y ?q)")
      case None
      then show ?thesis by (simp add: accumulate_particle_def px)
    next
      case py: (Some py)
      show ?thesis
      proof (cases "px \<ge> 0 \<and> px < width g \<and> py \<ge> 0 \<and> py < height g")
        case True
        then have "nat py < nat (height g)" "nat px < nat (width g)" by auto
        moreover have "\<forall>I. accumulate_particle add g p I =
            Some (set_cell I (nat py) (nat px) (add (I ! nat py ! nat px) (brightness p)))"
          using True by (simp add: accumulate_particle_def px py)
        ultimately show ?thesis by blast
      next
        case False
        then have "\<forall>I. accumulate_particle add g p I = Some I"
          by (auto simp: accumulate_particle_def px py)
        then show ?thesis by blast
      qed
    qed
  qed
qed

lemma set_cell_commute:
  assumes rc: "\<forall>s a b. add (add s a) b = add (add s b) a"
    and ws: "well_sized h w I"
    and 1: "r1 < h" "c1 < w" and 2: "r2 < h" "c2 < w"
  shows "set_cell (set_cell I r1 c1 (add (I ! r1 ! c1) b1)) r2 c2
           (add (set_cell I r1 c1 (add (I ! r1 ! c1) b1) ! r2 ! c2) b2) =
         set_cell (set_cell I r2 c2 (add (I ! r2 ! c2) b2)) r1 c1
           (add (set_cell I r2 c2 (add (I ! r2 ! c2) b2) ! r1 ! c1) b1)"
proof (rule well_sized_eqI [of h w])
  let ?I1 = "set_cell I r1 c1 (add (I ! r1 ! c1) b1)"
  let ?I2 = "set_cell I r2 c2 (add (I ! r2 ! c2) b2)"
  have ws1: "well_sized h w ?I1" and ws2: "well_sized h w ?I2"
    using ws by simp_all
  show "well_sized h w (set_cell ?I1 r2 c2 (add (?I1 ! r2 ! c2) b2))"
    using ws1 by simp
  show "well_sized h w (set_cell ?I2 r1 c1 (add (?I2 ! r1 ! c1) b1))"
    using ws2 by simp
  show "\<forall>r<h. \<forall>c<w. set_cell ?I1 r2 c2 (add (?I1 ! r2 ! c2) b2) ! r ! c =
                    set_cell ?I2 r1 c1 (add (?I2 ! r1 ! c1) b1) ! r ! c"
  proof (intro allI impI)
    fix r c assume "r < h" "c < w"
    have I1: "?I1 ! r' ! c' = (if r' = r1 \<and> c' = c1 then add (I ! r1 ! c1) b1 else I ! r' ! c')"
      for r' c' by (rule nth_set_cell [OF ws 1])
    have I2: "?I2 ! r' ! c' = (if r' = r2 \<and> c' = c2 then add (I ! r2 ! c2) b2 else I ! r' ! c')"
      for r' c' by (rule nth_set_cell [OF ws 2])
    have L: "set_cell ?I1 r2 c2 v ! r ! c = (if r = r2 \<and> c = c2 then v else ?I1 ! r ! c)" for v
      by (rule nth_set_cell [OF ws1 2])
    have R: "set_cell ?I2 r1 c1 v ! r ! c = (if r = r1 \<and> c = c1 then v else ?I2 ! r ! c)" for v
      by (rule nth_set_cell [OF ws2 1])
    show "set_cell ?I1 r2 c2 (add (?I1 ! r2 ! c2) b2) ! r ! c =
          set_cell ?I2 r1 c1 (add (?I2 ! r1 ! c1) b1) ! r ! c"
    proof (cases "r1 = r2 \<and> c1 = c2")
      case True
      from rc have "add (add (I ! r2 ! c2) b1) b2 = add (add (I ! r2 ! c2) b2) b1"
        by blast
      with True show ?thesis
        unfolding L R I1 I2 by simp
    next
      case False
      then show ?thesis
        unfolding L R I1 I2 by auto
    qed
  qed
qed

lemma accumulate_particle_commute:
  assumes rc: "\<forall>s a b. add (add s a) b = add (add s b) a"
    and ws: "well_sized (nat (height g)) (nat (width g)) I"
  shows "accumulate_particle add g p I \<bind> accumulate_particle add g q =
         accumulate_particle add g q I \<bind> accumulate_particle add g p"
proof -
  consider (undef) "\<forall>I. accumulate_particle add g p I = None"
    | (skip) "\<forall>I. accumulate_particle add g p I = Some I"
    | (add) r1 c1 where "r1 < nat (height g)" "c1 < nat (width g)"
        "\<forall>I. accumulate_particle add g p I =
            Some (set_cell I r1 c1 (add (I ! r1 ! c1) (brightness p)))"
    using accumulate_particle_cases [of add g p] by blast
  then show ?thesis
  proof cases
    case undef
    then show ?thesis
      by (cases "accumulate_particle add g q I") simp_all
  next
    case skip
    then show ?thesis
      by (cases "accumulate_particle add g q I") simp_all
  next
    case p: add
    consider (undef) "\<forall>I. accumulate_particle add g q I = None"
      | (skip) "\<forall>I. accumulate_particle add g q I = Some I"
      | (add) r2 c2 where "r2 < nat (height g)" "c2 < nat (width g)"
          "\<forall>I. accumulate_particle add g q I =
              Some (set_cell I r2 c2 (add (I ! r2 ! c2) (brightness q)))"
      using accumulate_particle_cases [of add g q] by blast
    then show ?thesis
    proof cases
      case undef
      then show ?thesis by (simp add: p(3))
    next
      case skip
      then show ?thesis by (simp add: p(3))
    next
      case q: add
      show ?thesis
        using set_cell_commute [OF rc ws p(1,2) q(1,2)]
        by (simp add: p(3) q(3))
    qed
  qed
qed

lemma accumulate_particles_loop_well_sized:
  "accumulate_particles_loop add g ps I = Some I' \<Longrightarrow> well_sized h w I \<Longrightarrow> well_sized h w I'"
proof (induction ps arbitrary: I)
  case Nil
  then show ?case by simp
next
  case (Cons p ps)
  from Cons.prems(1) obtain I1 where "accumulate_particle add g p I = Some I1"
    "accumulate_particles_loop add g ps I1 = Some I'"
    by (auto simp: bind_eq_Some_conv)
  then show ?case
    using Cons.IH [of I1] accumulate_particle_well_sized [OF _ Cons.prems(2)] by blast
qed

text \<open>A particle anywhere in the collection can be processed first.\<close>

lemma accumulate_particles_loop_move:
  assumes rc: "\<forall>s a b. add (add s a) b = add (add s b) a"
  shows "well_sized (nat (height g)) (nat (width g)) I \<Longrightarrow>
    accumulate_particles_loop add g (ps @ p # qs) I =
    accumulate_particles_loop add g (p # ps @ qs) I"
proof (induction ps arbitrary: I)
  case Nil
  then show ?case by simp
next
  case (Cons a ps)
  let ?step = "accumulate_particle add g" and ?loop = "accumulate_particles_loop add g"
  have "?loop ((a # ps) @ p # qs) I = ?step a I \<bind> ?loop (ps @ p # qs)"
    by simp
  also have "\<dots> = ?step a I \<bind> ?loop (p # ps @ qs)"
  proof (rule Option.bind_cong [OF refl])
    fix I1 assume "?step a I = Some I1"
    then have "well_sized (nat (height g)) (nat (width g)) I1"
      using accumulate_particle_well_sized Cons.prems by blast
    then show "?loop (ps @ p # qs) I1 = ?loop (p # ps @ qs) I1"
      by (rule Cons.IH)
  qed
  also have "\<dots> = ?step a I \<bind> (\<lambda>I1. ?step p I1 \<bind> ?loop (ps @ qs))"
    by (rule Option.bind_cong [OF refl]) simp
  also have "\<dots> = (?step a I \<bind> ?step p) \<bind> ?loop (ps @ qs)"
    by (rule bind_assoc [symmetric])
  also have "\<dots> = (?step p I \<bind> ?step a) \<bind> ?loop (ps @ qs)"
    by (simp only: accumulate_particle_commute [OF rc Cons.prems])
  also have "\<dots> = ?step p I \<bind> (\<lambda>I2. ?step a I2 \<bind> ?loop (ps @ qs))"
    by (rule bind_assoc)
  also have "\<dots> = ?step p I \<bind> ?loop (a # ps @ qs)"
    by (rule Option.bind_cong [OF refl]) simp
  also have "\<dots> = ?loop (p # (a # ps) @ qs) I"
    by simp
  finally show ?case .
qed

lemma accumulate_particles_loop_permutation:
  assumes rc: "\<forall>s a b. add (add s a) b = add (add s b) a"
  shows "mset ps = mset qs \<Longrightarrow> well_sized (nat (height g)) (nat (width g)) I \<Longrightarrow>
    accumulate_particles_loop add g ps I = accumulate_particles_loop add g qs I"
proof (induction ps arbitrary: qs I)
  case Nil
  then show ?case by simp
next
  case (Cons p ps)
  let ?step = "accumulate_particle add g" and ?loop = "accumulate_particles_loop add g"
  from Cons.prems(1) have "p \<in> set qs"
    by (metis list.set_intros(1) set_mset_mset)
  then obtain qs1 qs2 where qs: "qs = qs1 @ p # qs2"
    by (auto simp: in_set_conv_decomp)
  with Cons.prems(1) have m: "mset ps = mset (qs1 @ qs2)"
    by simp
  have "?loop (p # ps) I = ?step p I \<bind> ?loop ps"
    by simp
  also have "\<dots> = ?step p I \<bind> ?loop (qs1 @ qs2)"
  proof (rule Option.bind_cong [OF refl])
    fix I1 assume "?step p I = Some I1"
    then have "well_sized (nat (height g)) (nat (width g)) I1"
      using accumulate_particle_well_sized Cons.prems(2) by blast
    then show "?loop ps I1 = ?loop (qs1 @ qs2) I1"
      by (rule Cons.IH [OF m])
  qed
  also have "\<dots> = ?loop (p # qs1 @ qs2) I"
    by simp
  also have "\<dots> = ?loop qs I"
    unfolding qs by (rule accumulate_particles_loop_move [OF rc Cons.prems(2), symmetric])
  finally show ?case .
qed

lemma accumulate_particle_particles [simp]:
  "accumulate_particle add (g\<lparr>particles := ps\<rparr>) p I = accumulate_particle add g p I"
  by (simp add: accumulate_particle_def)

lemma accumulate_particles_loop_particles:
  "accumulate_particles_loop add (g\<lparr>particles := ps\<rparr>) qs I = accumulate_particles_loop add g qs I"
proof (induction qs arbitrary: I)
  case Nil
  then show ?case by simp
next
  case (Cons q qs)
  have "accumulate_particle add g q I \<bind> accumulate_particles_loop add (g\<lparr>particles := ps\<rparr>) qs =
        accumulate_particle add g q I \<bind> accumulate_particles_loop add g qs"
    by (rule Option.bind_cong [OF refl]) (rule Cons.IH)
  then show ?case by simp
qed

text \<open>
  Claim C8, as amended.  The accumulation pass is independent of the order of the
  particles whenever the addition of intensities satisfies \<open>(s + a) + b = (s + b) + a\<close>,
  as the exact addition of real numbers does: two collections with the same particles,
  in any order, then give the same intensity in every cell (and the pass is undefined for
  both or for neither).  The addition of doubles rounds every sum and does not satisfy the
  law: the intensities the program computes can differ between two orders.
\<close>

theorem accumulate_particles_permutation:
  assumes "\<forall>s a b. add (add s a) b = add (add s b) a"
    and "mset ps = mset qs"
    and "well_sized (nat (height g)) (nat (width g)) intensity"
  shows "accumulate_particles add (g\<lparr>particles := ps\<rparr>) intensity =
         accumulate_particles add (g\<lparr>particles := qs\<rparr>) intensity"
  using accumulate_particles_loop_permutation [OF assms]
  by (simp add: accumulate_particles_def accumulate_particles_loop_particles)

lemma round_double_examples:
  "round_double 1 = 1"
  "round_double (1 / 2) = 1 / 2"
  "round_double (1 + 1 / 2 ^ 52) = 1 + 1 / 2 ^ 52"
  "round_double (1 + 1 / 2 ^ 53) = 1"
  "round_double (1 + 3 / 2 ^ 53) = 1 + 1 / 2 ^ 51"
  "round_double (1 + 3 / 2 ^ 54) = 1 + 1 / 2 ^ 52"
  "round_double (- (1 / 10)) = - (3602879701896397 / 2 ^ 55)"
  by (simp_all add: round_double_eval)

lemma central_particle_step:
  "accumulate_particle add one_cell_galaxy (central_particle b) [[s]] = Some [[add s b]]"
  by (simp add: accumulate_particle_def one_cell_galaxy_def central_particle_def
      Particle_new_def get_position_def static_cast_int_def set_cell_def)

lemma central_particles_sum:
  "accumulate_particles add
     (one_cell_galaxy\<lparr>particles := [central_particle a, central_particle b, central_particle c]\<rparr>)
     [[s]] = Some [[add (add (add s a) b) c]]"
  by (simp add: accumulate_particles_def central_particle_step)

theorem accumulate_particles_permutation_witness:
  "accumulate_particles (+)
     (one_cell_galaxy\<lparr>particles := [central_particle (round_double (1 / 10)),
        central_particle (round_double (2 / 10)), central_particle (round_double (3 / 10))]\<rparr>)
     [[0]] = Some [[21617278211378381 / 2 ^ 55]] \<and>
   accumulate_particles (+)
     (one_cell_galaxy\<lparr>particles := [central_particle (round_double (3 / 10)),
        central_particle (round_double (2 / 10)), central_particle (round_double (1 / 10))]\<rparr>)
     [[0]] = Some [[21617278211378381 / 2 ^ 55]]"
proof -
  let ?a = "central_particle (round_double (1 / 10))"
  let ?b = "central_particle (round_double (2 / 10))"
  let ?c = "central_particle (round_double (3 / 10))"
  have rc: "\<forall>s a b :: real. s + a + b = s + b + a"
    by simp
  have m: "mset [?a, ?b, ?c] = mset [?c, ?b, ?a]"
    by simp
  have ws: "well_sized (nat (height one_cell_galaxy)) (nat (width one_cell_galaxy)) [[0::real]]"
    by (simp add: well_sized_def one_cell_galaxy_def)
  have "accumulate_particles (+) (one_cell_galaxy\<lparr>particles := [?a, ?b, ?c]\<rparr>) [[0]] =
        Some [[21617278211378381 / 2 ^ 55]]"
    by (simp add: central_particles_sum round_double_eval)
  with accumulate_particles_permutation [OF rc m ws] show ?thesis
    by simp
qed

text \<open>
  The claim as stated fails for the addition of doubles.  Three particles on one cell with
  brightness \<^verbatim>\<open>0.1\<close>, \<^verbatim>\<open>0.2\<close> and \<^verbatim>\<open>0.3\<close> give the intensity \<open>0.6000000000000001\<close> in this
  order and \<open>0.6\<close> in the reverse order.
\<close>

theorem double_sum_order_counterexample:
  "mset [central_particle (round_double (1 / 10)), central_particle (round_double (2 / 10)),
         central_particle (round_double (3 / 10))] =
   mset [central_particle (round_double (3 / 10)), central_particle (round_double (2 / 10)),
         central_particle (round_double (1 / 10))] \<and>
   accumulate_particles double_add
     (one_cell_galaxy\<lparr>particles := [central_particle (round_double (1 / 10)),
        central_particle (round_double (2 / 10)), central_particle (round_double (3 / 10))]\<rparr>)
     [[0]] = Some [[5404319552844596 / 2 ^ 53]] \<and>
   accumulate_particles double_add
     (one_cell_galaxy\<lparr>particles := [central_particle (round_double (3 / 10)),
        central_particle (round_double (2 / 10)), central_particle (round_double (1 / 10))]\<rparr>)
     [[0]] = Some [[5404319552844595 / 2 ^ 53]] \<and>
   (5404319552844596 / 2 ^ 53 :: real) \<noteq> 5404319552844595 / 2 ^ 53"
  by (simp add: central_particles_sum round_double_eval)

subsection \<open>The frame on the states the program reaches\<close>

lemma static_cast_int_defined:
  "static_cast_int v \<noteq> None \<longleftrightarrow> - (2 ^ 31) - 1 < v \<and> v < 2 ^ 31"
proof (cases "v < 0")
  case True
  have "(- (2 ^ 31) \<le> \<lceil>v\<rceil>) = (- (2 ^ 31) - 1 < v)"
    by (simp add: le_ceiling_iff)
  moreover have "\<lceil>v\<rceil> < 2 ^ 31" "v < 2 ^ 31"
    using True by (simp_all add: ceiling_less_iff)
  ultimately show ?thesis
    using True by (simp add: static_cast_int_def Let_def)
next
  case False
  have "(\<lfloor>v\<rfloor> < 2 ^ 31) = (v < 2 ^ 31)"
    by (simp add: floor_less_iff)
  moreover have "- (2 ^ 31) \<le> \<lfloor>v\<rfloor>" "- (2 ^ 31) - 1 < v"
    using False by (simp_all add: le_floor_iff)
  ultimately show ?thesis
    using False by (simp add: static_cast_int_def Let_def)
qed

lemma static_cast_int_definedI:
  "- (2 ^ 30) \<le> v \<Longrightarrow> v \<le> 2 ^ 30 + 36 \<Longrightarrow> static_cast_int v \<noteq> None"
  unfolding static_cast_int_defined by simp

text \<open>Stars whose position converts to \<open>int\<close> are all drawn.\<close>

lemma render_stars_loop_defined:
  assumes "\<forall>s\<in>set ss. static_cast_int (x (pos s)) \<noteq> None \<and> static_cast_int (y (pos s)) \<noteq> None"
  shows "\<exists>screen'. render_stars_loop g ss screen = Some screen'"
  using assms
proof (induction ss arbitrary: screen)
  case Nil
  then show ?case by simp
next
  case (Cons s ss)
  then obtain sx sy where "static_cast_int (x (pos s)) = Some sx" "static_cast_int (y (pos s)) = Some sy"
    by auto
  then have "\<exists>s1. render_star g s screen = Some s1"
    by (simp add: render_star_def Let_def)
  then obtain s1 where "render_star g s screen = Some s1" ..
  with Cons.IH [of s1] Cons.prems show ?case
    by auto
qed

text \<open>
  With exact addition, brightness in \<open>[0, 1]\<close> and positions that convert to \<open>int\<close>, the
  accumulation pass is defined and no cell exceeds the number of particles.
\<close>

lemma accumulate_particle_bounded:
  assumes "bounded_grid (nat (height g)) (nat (width g)) b I"
    and "brightness p \<le> 1"
    and "static_cast_int (x (get_position p (center g) (aspect_ratio g))) \<noteq> None"
    and "static_cast_int (y (get_position p (center g) (aspect_ratio g))) \<noteq> None"
  shows "\<exists>I'. accumulate_particle (+) g p I = Some I' \<and>
           bounded_grid (nat (height g)) (nat (width g)) (b + 1) I'"
proof -
  let ?h = "nat (height g)" and ?w = "nat (width g)"
  from assms(1) have ws: "well_sized ?h ?w I" and le: "\<forall>r<?h. \<forall>c<?w. I ! r ! c \<le> b"
    by (simp_all add: bounded_grid_def)
  have le1: "I ! r ! c \<le> b + 1" if "r < ?h" "c < ?w" for r c
  proof -
    have "I ! r ! c \<le> b" using le that by simp
    then show ?thesis by simp
  qed
  then have keep: "bounded_grid ?h ?w (b + 1) I"
    unfolding bounded_grid_def using ws by simp
  consider (undef) "\<forall>I. accumulate_particle (+) g p I = None"
    | (skip) "\<forall>I. accumulate_particle (+) g p I = Some I"
    | (add) r1 c1 where "r1 < ?h" "c1 < ?w"
        "\<forall>I. accumulate_particle (+) g p I = Some (set_cell I r1 c1 (I ! r1 ! c1 + brightness p))"
    using accumulate_particle_cases [of "(+)" g p] by blast
  then show ?thesis
  proof cases
    case undef
    then have "accumulate_particle (+) g p I = None" by simp
    with assms(3,4) show ?thesis
      by (auto simp: accumulate_particle_def Let_def split: if_splits)
  next
    case skip
    with keep show ?thesis by simp
  next
    case add
    let ?I' = "set_cell I r1 c1 (I ! r1 ! c1 + brightness p)"
    have "\<forall>r<?h. \<forall>c<?w. ?I' ! r ! c \<le> b + 1"
    proof (intro allI impI)
      fix r c assume rc: "r < ?h" "c < ?w"
      have "I ! r1 ! c1 + brightness p \<le> b + 1"
        using le add(1,2) assms(2) by (simp add: add_mono)
      moreover have "I ! r ! c \<le> b + 1"
        using rc by (rule le1)
      ultimately show "?I' ! r ! c \<le> b + 1"
        by (simp add: nth_set_cell [OF ws add(1,2)])
    qed
    then have "bounded_grid ?h ?w (b + 1) ?I'"
      using ws by (simp add: bounded_grid_def)
    with add(3) show ?thesis by simp
  qed
qed

lemma accumulate_particles_loop_bounded:
  assumes "\<forall>p\<in>set ps. brightness p \<le> 1 \<and>
      static_cast_int (x (get_position p (center g) (aspect_ratio g))) \<noteq> None \<and>
      static_cast_int (y (get_position p (center g) (aspect_ratio g))) \<noteq> None"
  shows "bounded_grid (nat (height g)) (nat (width g)) b I \<Longrightarrow>
    \<exists>I'. accumulate_particles_loop (+) g ps I = Some I' \<and>
           bounded_grid (nat (height g)) (nat (width g)) (b + real (length ps)) I'"
  using assms
proof (induction ps arbitrary: b I)
  case Nil
  then show ?case by simp
next
  case (Cons p ps)
  from accumulate_particle_bounded [OF Cons.prems(1), of p] Cons.prems(2)
  obtain I1 where I1: "accumulate_particle (+) g p I = Some I1"
    "bounded_grid (nat (height g)) (nat (width g)) (b + 1) I1"
    by auto
  from Cons.IH [OF I1(2)] Cons.prems(2)
  obtain I' where "accumulate_particles_loop (+) g ps I1 = Some I'"
    "bounded_grid (nat (height g)) (nat (width g)) (b + 1 + real (length ps)) I'"
    by auto
  moreover have "b + 1 + real (length ps) = b + real (length (p # ps))"
    by simp
  ultimately show ?case
    using I1(1) by (simp del: of_nat_Suc)
qed

lemma arm_particle_radius_upper:
  assumes "valid_draws rng" "i < particles_per_arm"
  shows "radius (fst (arm_particle rng arm i k)) \<le> 18"
proof -
  define t where "t = real i / 150"
  have t: "0 \<le> t" "t < 1" using assms(2) by (simp_all add: t_def particles_per_arm_def)
  have u: "rng k < 1" using assms(1) by (simp add: valid_draws_def)
  have "(2 * rng k - 1) * (1 / 2 + t * (3 / 2)) \<le> 1 * (1 / 2 + t * (3 / 2))"
    using t u by (intro mult_right_mono) auto
  then have "(2 * rng k - 1) * (1 / 2 + t * (3 / 2)) \<le> 1 / 2 + t * (3 / 2)"
    by simp
  then show ?thesis
    unfolding arm_particle_fields t_def [symmetric] using t by linarith
qed

lemma core_particle_radius_upper:
  assumes "valid_draws rng"
  shows "radius (fst (core_particle rng k)) \<le> 18"
proof -
  have "rng k < 1" using assms by (simp add: valid_draws_def)
  then show ?thesis by (simp add: core_particle_fields)
qed

lemma new_star_position:
  assumes "valid_draws rng" "0 \<le> w" "0 \<le> h"
  shows "0 \<le> x (pos (fst (new_star rng w h k)))"
    and "x (pos (fst (new_star rng w h k))) \<le> real_of_int w"
    and "0 \<le> y (pos (fst (new_star rng w h k)))"
    and "y (pos (fst (new_star rng w h k))) \<le> real_of_int h"
proof -
  have u: "0 \<le> rng j" "rng j \<le> 1" for j
    using assms(1) by (simp_all add: valid_draws_def less_imp_le)
  show "0 \<le> x (pos (fst (new_star rng w h k)))" "0 \<le> y (pos (fst (new_star rng w h k)))"
    using u assms(2,3) by (simp_all add: new_star_fields)
  show "x (pos (fst (new_star rng w h k))) \<le> real_of_int w"
    using mult_left_mono [OF u(2) [of k], of "real_of_int w"] assms(2)
    by (simp add: new_star_fields)
  show "y (pos (fst (new_star rng w h k))) \<le> real_of_int h"
    using mult_left_mono [OF u(2) [of "Suc k"], of "real_of_int h"] assms(3)
    by (simp add: new_star_fields)
qed

lemma Galaxy_new_staged:
  assumes "valid_draws rng" and "Galaxy_new rng w h = Some g"
  shows "staged w h g"
proof -
  from assms(2) have wh: "0 \<le> w" "0 \<le> h"
    by (auto simp: Galaxy_new_def split: if_splits)
  note f = Galaxy_new_particles [OF assms(2)]
  have P: "0 \<le> radius p \<and> radius p \<le> 18 \<and> brightness p \<le> 1" if "p \<in> set (particles g)" for p
  proof -
    from that have "p \<in> set (arm_list rng 0 0 0) \<or> p \<in> set (arm_list rng 1 0 300) \<or>
        p \<in> set (core_list rng 0 600)"
      unfolding f(1) by auto
    then consider arm j k where "j < particles_per_arm" "p = fst (arm_particle rng arm j k)"
      | k where "p = fst (core_particle rng k)"
      by (meson in_arm_listD in_core_listD)
    then show ?thesis
    proof cases
      case 1
      then show ?thesis
        using arm_particle_radius [OF assms(1) 1(1), of arm k]
          arm_particle_radius_upper [OF assms(1) 1(1), of arm k]
          arm_particle_brightness(2) [OF 1(1), of rng arm k]
        by simp
    next
      case 2
      then show ?thesis
        using core_particle_bounds(1,7) [OF assms(1), of k]
          core_particle_radius_upper [OF assms(1), of k]
        by simp
    qed
  qed
  have S: "0 \<le> x (pos s) \<and> x (pos s) \<le> real_of_int w \<and> 0 \<le> y (pos s) \<and> y (pos s) \<le> real_of_int h"
    if "s \<in> set (stars g)" for s
  proof -
    from that obtain k where "s = fst (new_star rng w h k)"
      unfolding f(2) star_list_def by auto
    then show ?thesis
      using new_star_position [OF assms(1) wh, of k] by simp
  qed
  show ?thesis
    unfolding staged_def using f(3-6) wh P S Galaxy_new_nth(4) [OF assms(2)] by simp
qed

lemma staged_update: "staged w h g \<Longrightarrow> staged w h (Galaxy_update dt g)"
  by (auto simp: staged_def Galaxy_update_def)

lemma staged_run_frames: "staged w h g \<Longrightarrow> staged w h (run_frames n g)"
  by (induction n) (simp_all add: run_frames_Suc staged_update)

lemma staged_render_defined:
  assumes "staged w h g" and "w \<le> 2 ^ 30" and "h \<le> 2 ^ 30"
    and "- (2 ^ 31) - 1 < t" and "t < 2 ^ 31"
  shows "\<exists>txt. render (+) g t = Some txt"
proof -
  let ?h = "nat (height g)" and ?w = "nat (width g)"
  let ?blank = "replicate ?h (replicate ?w CHR '' '')"
  let ?zero = "replicate ?h (replicate ?w (0::real))"
  note st = assms(1) [unfolded staged_def]
  have W: "real_of_int w \<le> 2 ^ 30" and H: "real_of_int h \<le> 2 ^ 30"
    using assms(2,3) by (simp_all flip: of_int_le_iff)
  have W0: "0 \<le> real_of_int w" and H0: "0 \<le> real_of_int h"
    using st by simp_all
  \<comment> \<open>the star pass\<close>
  have "\<forall>s\<in>set (stars g). static_cast_int (x (pos s)) \<noteq> None \<and> static_cast_int (y (pos s)) \<noteq> None"
  proof
    fix s assume "s \<in> set (stars g)"
    with st have "0 \<le> x (pos s)" "x (pos s) \<le> real_of_int w" "0 \<le> y (pos s)"
      "y (pos s) \<le> real_of_int h"
      by simp_all
    with W H show "static_cast_int (x (pos s)) \<noteq> None \<and> static_cast_int (y (pos s)) \<noteq> None"
      by (intro conjI static_cast_int_definedI) linarith+
  qed
  from render_stars_loop_defined [OF this, of g ?blank]
  obtain s1 where s1: "render_stars g ?blank = Some s1"
    by (auto simp: render_stars_def)
  have ws1: "well_sized ?h ?w s1"
    using s1 unfolding render_stars_def by (rule render_stars_loop_well_sized) simp
  \<comment> \<open>the accumulation pass\<close>
  have "\<forall>p\<in>set (particles g). brightness p \<le> 1 \<and>
      static_cast_int (x (get_position p (center g) (aspect_ratio g))) \<noteq> None \<and>
      static_cast_int (y (get_position p (center g) (aspect_ratio g))) \<noteq> None"
  proof
    fix p assume "p \<in> set (particles g)"
    with st have r: "0 \<le> radius p" "radius p \<le> 18" and b: "brightness p \<le> 1"
      by simp_all
    have "\<bar>radius p * cos (angle p)\<bar> \<le> 18 * 1"
      unfolding abs_mult using r by (intro mult_mono) auto
    then have cx: "- 18 \<le> radius p * cos (angle p)" "radius p * cos (angle p) \<le> 18"
      by (simp_all add: abs_le_iff)
    have "\<bar>radius p * sin (angle p)\<bar> \<le> 18 * 1"
      unfolding abs_mult using r by (intro mult_mono) auto
    then have cy: "- 18 \<le> radius p * sin (angle p)" "radius p * sin (angle p) \<le> 18"
      by (simp_all add: abs_le_iff)
    have "x (get_position p (center g) (aspect_ratio g)) = real_of_int w / 2 + radius p * cos (angle p) * 2"
      "y (get_position p (center g) (aspect_ratio g)) = real_of_int h / 2 + radius p * sin (angle p)"
      using st by (simp_all add: get_position_def)
    with cx cy W H W0 H0 b
    show "brightness p \<le> 1 \<and>
      static_cast_int (x (get_position p (center g) (aspect_ratio g))) \<noteq> None \<and>
      static_cast_int (y (get_position p (center g) (aspect_ratio g))) \<noteq> None"
      by (intro conjI static_cast_int_definedI; simp; linarith)
  qed
  moreover have "bounded_grid ?h ?w 0 ?zero"
    by (simp add: bounded_grid_def)
  ultimately obtain i1 where i1: "accumulate_particles (+) g ?zero = Some i1"
    "bounded_grid ?h ?w (0 + real (length (particles g))) i1"
    unfolding accumulate_particles_def
    using accumulate_particles_loop_bounded [of "particles g" g 0 ?zero] by blast
  then have small: "\<forall>r<?h. \<forall>c<?w. round_double (1 / 10) < i1 ! r ! c \<longrightarrow>
      double_mul (i1 ! r ! c) 3 < 2 ^ 31"
  proof (intro allI impI)
    fix r c assume "r < ?h" "c < ?w" and above: "round_double (1 / 10) < i1 ! r ! c"
    with i1(2) st have "i1 ! r ! c \<le> 360"
      by (simp add: bounded_grid_def)
    moreover have "0 < i1 ! r ! c"
      using above tenth_bounds(2) by simp
    ultimately have "round_double (i1 ! r ! c * 3) \<le> round_double 1080"
      by (intro round_double_mono) simp_all
    then have "double_mul (i1 ! r ! c) 3 \<le> 1080"
      by (simp only: double_mul_def round_double_fixed)
    then show "double_mul (i1 ! r ! c) 3 < 2 ^ 31" by simp
  qed
  \<comment> \<open>the glyph pass\<close>
  have wh: "width g = int ?w" "height g = int ?h"
    using st by simp_all
  from apply_intensity_spec [OF wh small ws1]
  obtain s2 where s2: "apply_intensity g s1 i1 = Some s2"
    by blast
  \<comment> \<open>the core overlay and the footer\<close>
  have "x (center g) = real_of_int w / 2" "y (center g) = real_of_int h / 2"
    using st by simp_all
  with W H W0 H0
  have "static_cast_int (x (center g)) \<noteq> None" "static_cast_int (y (center g)) \<noteq> None"
    by (intro static_cast_int_definedI; linarith)+
  then have "\<exists>s3. render_core g s2 = Some s3"
    by (auto simp: render_core_def)
  then obtain s3 where s3: "render_core g s2 = Some s3" ..
  from assms(4,5) obtain secs where "static_cast_int t = Some secs"
    using static_cast_int_defined [of t] by auto
  then obtain frame where "Galaxy_output s3 t = Some frame"
    by (simp add: Galaxy_output_def)
  with s1 i1(1) s2 s3 show ?thesis
    using st by (simp add: render_def)
qed

lemma main_galaxy_size: "main_galaxy rng = Galaxy_new rng 120 35"
  by (simp add: main_galaxy_def get_terminal_size_def)

text \<open>Every frame of \<^verbatim>\<open>main\<close> is produced.\<close>

lemma main_frame_defined:
  assumes "valid_draws rng" and "0 \<le> t" and "t < 2 ^ 31"
  shows "\<exists>frame. main_frame (+) rng n t = Some frame"
proof -
  obtain g where g: "Galaxy_new rng 120 35 = Some g"
    by (simp add: Galaxy_new_closed)
  then have "staged 120 35 (run_frames n g)"
    using assms(1) by (intro staged_run_frames Galaxy_new_staged)
  then have "\<exists>frame. render (+) (run_frames n g) t = Some frame"
    using assms(2,3) staged_render_defined [of 120 35 "run_frames n g" t] by simp
  then show ?thesis
    by (simp add: main_frame_def main_galaxy_size g)
qed

lemma lone_particle_glyphs:
  "apply_intensity lone_particle_galaxy (replicate 6 (replicate 10 CHR '' ''))
     (set_cell (replicate 6 (replicate 10 0)) 3 7 1) =
   Some (set_cell (replicate 6 (replicate 10 CHR '' '')) 3 7 CHR ''-'')"
proof -
  let ?I = "set_cell (replicate 6 (replicate 10 (0::real))) 3 7 1"
  let ?blank = "replicate 6 (replicate 10 CHR '' '')"
  have ws: "well_sized 6 10 ?blank"
    by simp
  have cell: "?I ! r ! c = (if r = 3 \<and> c = 7 then 1 else 0)" if "r < 6" "c < 10" for r c
    using that by (simp add: nth_set_cell [of 6 10])
  have r3: "round_double 3 = 3"
    by (simp add: round_double_eval)
  then have small: "\<forall>r<6. \<forall>c<10. round_double (1 / 10) < ?I ! r ! c \<longrightarrow>
      double_mul (?I ! r ! c) 3 < 2 ^ 31"
    by (simp add: cell double_mul_def double_of_tenth)
  have wh: "width lone_particle_galaxy = int 10" "height lone_particle_galaxy = int 6"
    by (simp_all add: lone_particle_galaxy_def)
  from apply_intensity_spec [OF wh small ws]
  obtain screen' where s': "apply_intensity lone_particle_galaxy ?blank ?I = Some screen'"
    "well_sized 6 10 screen'"
    "\<forall>r<6. \<forall>c<10. screen' ! r ! c =
         (if round_double (1 / 10) < ?I ! r ! c
          then GRADIENT ! nat (clamp \<lfloor>double_mul (?I ! r ! c) 3\<rfloor> 0 9)
          else ?blank ! r ! c)"
    by blast
  have "\<forall>r<6. \<forall>c<10. screen' ! r ! c = set_cell ?blank 3 7 CHR ''-'' ! r ! c"
  proof (intro allI impI)
    fix r c :: nat assume rc: "r < 6" "c < 10"
    show "screen' ! r ! c = set_cell ?blank 3 7 CHR ''-'' ! r ! c"
      using s'(3) [rule_format, OF rc] rc r3
      by (simp add: cell nth_set_cell [OF ws] clamp_def GRADIENT_def double_mul_def
          double_of_tenth)
  qed
  with s'(2) have "screen' = set_cell ?blank 3 7 CHR ''-''"
    by (intro well_sized_eqI [of 6 10]) simp_all
  with s'(1) show ?thesis by simp
qed

lemma lone_particle_render:
  "render (+) lone_particle_galaxy (- (1 / 2)) =
     Some (''          \<newline>'' @ ''          \<newline>'' @ ''          \<newline>'' @
           ''    (@)-  \<newline>'' @ ''          \<newline>'' @ ''          \<newline>'' @
           ''\<newline> Time: 0s'')"
proof -
  let ?blank = "replicate 6 (replicate 10 CHR '' '')"
  have wh: "width lone_particle_galaxy = 10" "height lone_particle_galaxy = 6"
    by (simp_all add: lone_particle_galaxy_def)
  have 1: "render_stars lone_particle_galaxy ?blank = Some ?blank"
    by (simp add: render_stars_def lone_particle_galaxy_def)
  have 4: "render_core lone_particle_galaxy (set_cell ?blank 3 7 CHR ''-'') =
      Some [''          '', ''          '', ''          '', ''    (@)-  '', ''          '',
            ''          '']"
    by (simp add: render_core_def static_cast_int_def lone_particle_galaxy_def set_cell_def
        eval_nat_numeral)
  have "\<lceil>- (1 / 2) :: real\<rceil> = 0"
    by (rule ceiling_unique) simp_all
  then have 5: "static_cast_int (- (1 / 2)) = Some 0"
    by (simp add: static_cast_int_def)
  have 6: "Galaxy_output [''          '', ''          '', ''          '', ''    (@)-  '',
      ''          '', ''          ''] (- (1 / 2)) =
     Some (''          \<newline>'' @ ''          \<newline>'' @ ''          \<newline>'' @
           ''    (@)-  \<newline>'' @ ''          \<newline>'' @ ''          \<newline>'' @
           ''\<newline> Time: 0s'')"
    by (simp add: Galaxy_output_def 5 show_int_def show_nat.simps)
  have "render (+) lone_particle_galaxy (- (1 / 2)) =
      Galaxy_output [''          '', ''          '', ''          '', ''    (@)-  '',
      ''          '', ''          ''] (- (1 / 2))"
    unfolding render_def wh
    by (simp add: 1 lone_particle_intensity lone_particle_glyphs 4)
  then show ?thesis
    by (simp only: 6)
qed

text \<open>
  Claim C5, as amended.  Whenever \<^verbatim>\<open>render\<close> returns, the frame is \<open>height\<close> lines of \<open>width\<close>
  characters, each followed by a newline, then an empty line and the status line
  \<open>" Time: <n>s"\<close>, where \<open>n\<close> is the elapsed time with its fractional part dropped
  (\<open>7.9\<close> gives \<open>7\<close>).  It does return on every state the program reaches: for a galaxy made
  by the constructor and advanced by any number of frames, on a grid of up to \<open>2 ^ 30\<close>
  columns and rows, and for every elapsed time that converts to \<^verbatim>\<open>int\<close>.  With no particles
  and no stars a \<open>10 \<times> 6\<close> grid renders as six lines of ten characters that are blank
  except for the core overlay \<open>(@)\<close> in the middle of the fourth line, followed by that
  footer.
\<close>

theorem render_frame_format:
  "(render add g t = Some frame \<longrightarrow>
      (\<exists>rows. length rows = nat (height g) \<and> (\<forall>row\<in>set rows. length row = nat (width g)) \<and>
         frame = concat (map (\<lambda>row. row @ ''\<newline>'') rows) @ ''\<newline> Time: '' @
                 show_int (if t < 0 then \<lceil>t\<rceil> else \<lfloor>t\<rfloor>) @ ''s'')) \<and>
   (valid_draws rng \<and> Galaxy_new rng w h = Some g0 \<and> w \<le> 2 ^ 30 \<and> h \<le> 2 ^ 30 \<and>
    - (2 ^ 31) - 1 < t \<and> t < 2 ^ 31 \<longrightarrow>
      render (+) (run_frames n g0) t \<noteq> None) \<and>
   render add empty_galaxy (79 / 10) =
     Some (''          \<newline>'' @ ''          \<newline>'' @ ''          \<newline>'' @
           ''    (@)   \<newline>'' @ ''          \<newline>'' @ ''          \<newline>'' @
           ''\<newline> Time: 7s'')"
proof (intro conjI impI)
  let ?h = "nat (height g)" and ?w = "nat (width g)"
  let ?blank = "replicate ?h (replicate ?w CHR '' '')"
  assume "render add g t = Some frame"
  then obtain s1 i1 s2 s3 where passes:
    "render_stars g ?blank = Some s1"
    "apply_intensity g s1 i1 = Some s2"
    "render_core g s2 = Some s3"
    "Galaxy_output s3 t = Some frame"
    by (rule render_passes)
  have "well_sized ?h ?w s1"
    using passes(1) unfolding render_stars_def
    by (rule render_stars_loop_well_sized) simp
  then have "well_sized ?h ?w s2"
    using passes(2) apply_intensity_rows_well_sized unfolding apply_intensity_def
    by blast
  then have "well_sized ?h ?w s3"
    using passes(3) render_core_well_sized by blast
  then have "length s3 = ?h" "\<forall>row\<in>set s3. length row = ?w"
    by (auto simp: well_sized_def in_set_conv_nth)
  with Galaxy_output_format [OF passes(4)]
  show "\<exists>rows. length rows = ?h \<and> (\<forall>row\<in>set rows. length row = ?w) \<and>
      frame = concat (map (\<lambda>row. row @ ''\<newline>'') rows) @ ''\<newline> Time: '' @
              show_int (if t < 0 then \<lceil>t\<rceil> else \<lfloor>t\<rfloor>) @ ''s''"
    by blast
next
  assume a: "valid_draws rng \<and> Galaxy_new rng w h = Some g0 \<and> w \<le> 2 ^ 30 \<and> h \<le> 2 ^ 30 \<and>
    - (2 ^ 31) - 1 < t \<and> t < 2 ^ 31"
  then have "staged w h g0"
    using Galaxy_new_staged [of rng w h g0] by simp
  then have "staged w h (run_frames n g0)"
    by (rule staged_run_frames)
  with a show "render (+) (run_frames n g0) t \<noteq> None"
    using staged_render_defined [of w h "run_frames n g0" t] by auto
next
  show "render add empty_galaxy (79 / 10) =
      Some (''          \<newline>'' @ ''          \<newline>'' @ ''          \<newline>'' @
            ''    (@)   \<newline>'' @ ''          \<newline>'' @ ''          \<newline>'' @
            ''\<newline> Time: 7s'')"
    by (rule empty_galaxy_render)
qed

theorem render_frame_format_witness:
  "render (+) lone_particle_galaxy (- (1 / 2)) =
     Some (''          \<newline>'' @ ''          \<newline>'' @ ''          \<newline>'' @
           ''    (@)-  \<newline>'' @ ''          \<newline>'' @ ''          \<newline>'' @
           ''\<newline> Time: 0s'') \<and>
   (\<exists>rows. length rows = 6 \<and>
      ''          \<newline>'' @ ''          \<newline>'' @ ''          \<newline>'' @
      ''    (@)-  \<newline>'' @ ''          \<newline>'' @ ''          \<newline>'' @
      ''\<newline> Time: 0s'' =
      concat (map (\<lambda>row. row @ ''\<newline>'') rows) @ ''\<newline> Time: '' @
        show_int \<lceil>- (1 / 2) :: real\<rceil> @ ''s'') \<and>
   valid_draws mid_draws \<and> Galaxy_new mid_draws 120 35 \<noteq> None \<and>
   render (+) (run_frames 1 (the (Galaxy_new mid_draws 120 35))) (79 / 10) \<noteq> None"
proof -
  note fmt = render_frame_format [of "(+)" lone_particle_galaxy "- (1 / 2)" _ mid_draws 120 35 _ 1]
  from fmt [THEN conjunct1, rule_format, OF lone_particle_render]
  obtain rows where "length rows = nat (height lone_particle_galaxy)"
    "''          \<newline>'' @ ''          \<newline>'' @ ''          \<newline>'' @
     ''    (@)-  \<newline>'' @ ''          \<newline>'' @ ''          \<newline>'' @
     ''\<newline> Time: 0s'' =
     concat (map (\<lambda>row. row @ ''\<newline>'') rows) @ ''\<newline> Time: '' @
       show_int (if - (1 / 2) < (0::real) then \<lceil>- (1 / 2) :: real\<rceil> else \<lfloor>- (1 / 2) :: real\<rfloor>) @ ''s''"
    by blast
  then have 1: "\<exists>rows. length rows = 6 \<and>
      ''          \<newline>'' @ ''          \<newline>'' @ ''          \<newline>'' @
      ''    (@)-  \<newline>'' @ ''          \<newline>'' @ ''          \<newline>'' @
      ''\<newline> Time: 0s'' =
      concat (map (\<lambda>row. row @ ''\<newline>'') rows) @ ''\<newline> Time: '' @
        show_int \<lceil>- (1 / 2) :: real\<rceil> @ ''s''"
    by (intro exI [of _ rows]) (simp add: lone_particle_galaxy_def)
  obtain g where g: "Galaxy_new mid_draws 120 35 = Some g"
    by (simp add: Galaxy_new_closed)
  have "valid_draws mid_draws \<and> Galaxy_new mid_draws 120 35 = Some g \<and>
      (120::int) \<le> 2 ^ 30 \<and> (35::int) \<le> 2 ^ 30 \<and>
      - (2 ^ 31) - 1 < (- (1 / 2) :: real) \<and> (- (1 / 2) :: real) < 2 ^ 31"
    using valid_mid_draws g by simp
  from render_frame_format [of "(+)" g "- (1 / 2)" _ mid_draws 120 35 g 1,
      THEN conjunct2, THEN conjunct1, rule_format, OF this]
  have 2: "render (+) (run_frames 1 g) (- (1 / 2)) \<noteq> None" .
  have "valid_draws mid_draws \<and> Galaxy_new mid_draws 120 35 = Some g \<and>
      (120::int) \<le> 2 ^ 30 \<and> (35::int) \<le> 2 ^ 30 \<and>
      - (2 ^ 31) - 1 < (79 / 10 :: real) \<and> (79 / 10 :: real) < 2 ^ 31"
    using valid_mid_draws g by simp
  from render_frame_format [of "(+)" g "79 / 10" _ mid_draws 120 35 g 1,
      THEN conjunct2, THEN conjunct1, rule_format, OF this]
  have 3: "render (+) (run_frames 1 g) (79 / 10) \<noteq> None" .
  from lone_particle_render 1 valid_mid_draws g 3 show ?thesis
    by (simp only: option.sel simp_thms option.distinct not_False_eq_True)
qed

text \<open>
  The claim as stated fails on its own example: the core overlay is drawn on the empty
  \<open>10 \<times> 6\<close> grid as well, so the fourth line is not blank.
\<close>

theorem blank_frame_counterexample:
  "render (+) empty_galaxy (79 / 10) \<noteq>
     Some (''          \<newline>'' @ ''          \<newline>'' @ ''          \<newline>'' @
           ''          \<newline>'' @ ''          \<newline>'' @ ''          \<newline>'' @
           ''\<newline> Time: 7s'')"
  by (simp add: empty_galaxy_render)

end
